theory Spec2Isabelle
  imports Main "HOL-Library.Char_ord" "HOL-Library.List_Lexorder" "HOL-Library.Sublist"
    "HOL-Library.AList"
begin

section \<open>Errors\<close>

text \<open>
  Every \<^verbatim>\<open>panic\<close>, \<^verbatim>\<open>log.Fatalf\<close> and run-time fault of the Go source is a value of
  this type. The names follow section 7 of the specification where it names the error.
\<close>

datatype error =
    DuplicateTarget
  | TestCommandButNotTest
  | TestWithoutTestCommand
  | UnknownTarget
  | ImmutableBuiltTarget
  | NilPointer
  | InvalidPath
  | AbsolutePath
  | CrossPackageFile
  | IndexOutOfRange
  | Unsubincludable
  | VisibilityViolation
  | MultipleOutputs
  | GetLabelsNotBuilding
  | DuplicateOutput
  | DuplicateGraphTarget
  | BadBuildLabel
  | BadPattern
  | NotExist
  | NotADirectory
  | InvalidArgument

section \<open>The data model of package core\<close>

text \<open>
  Package \<^verbatim>\<open>core\<close> is not among the source files; its types are modelled from section 3
  of the specification and from the way \<^verbatim>\<open>interpreter.go\<close> and \<^verbatim>\<open>dir_cache.go\<close> use them.
\<close>

text \<open>Modelled from the spec: the target states of section 4.3, in increasing order.\<close>

datatype build_target_state = Inactive | Active | Pending | Building | Built | Failed

fun state_rank :: "build_target_state \<Rightarrow> nat" where
  "state_rank Inactive = 0"
| "state_rank Active = 1"
| "state_rank Pending = 2"
| "state_rank Building = 3"
| "state_rank Built = 4"
| "state_rank Failed = 5"

record build_label =
  PackageName :: string
  Name :: string

text \<open>The three variants of \<^verbatim>\<open>core.BuildInput\<close> that \<^verbatim>\<open>parseSource\<close> constructs.\<close>

datatype build_input =
    FileLabel string string
  | BuildFileLabel build_label string
  | BuildLabelInput build_label

text \<open>\<^verbatim>\<open>source.Label()\<close>: the label of a label input, \<^verbatim>\<open>nil\<close> for a file.\<close>

fun input_Label :: "build_input \<Rightarrow> build_label option" where
  "input_Label (FileLabel f p) = None"
| "input_Label (BuildFileLabel l f) = Some l"
| "input_Label (BuildLabelInput l) = Some l"

text \<open>
  Go pointers to targets and packages are addresses into two stores, so that the target
  registered in a package, the target in the graph and the target a callback receives are
  one object.
\<close>

type_synonym addr = nat

record build_target =
  Label :: build_label
  State :: build_target_state
  IsBinary :: bool
  IsTest :: bool
  NeedsTransitiveDependencies :: bool
  OutputIsComplete :: bool
  Containerise :: bool
  NoTestOutput :: bool
  SkipCache :: bool
  TestOnly :: bool
  Flakiness :: int
  BuildTimeout :: int
  TestTimeout :: int
  BuildingDescription :: string
  Command :: string
  TestCommand :: string
  Labels :: "string list"
  Sources :: "build_input list"
  NamedSources :: "(string \<times> build_input) list"
  Data :: "build_input list"
  Outputs :: "string list"
  Licences :: "string list"
  Visibility :: "build_label list"
  DeclaredDependencies :: "build_label set"
  ExportedDependencies :: "build_label set"
  Dependencies :: "addr list"

record package =
  PkgName :: string
  Targets :: "string \<rightharpoonup> addr"
  PkgOutputs :: "string \<rightharpoonup> addr"

text \<open>
  Modelled from the spec: the process-wide graph (\<^verbatim>\<open>core.State.Graph\<close>) holds the packages by
  name and the targets by label. The source only asks whether a package is registered, so
  the packages are the set of registered names.
\<close>

record build_graph =
  GraphTargets :: "build_label \<rightharpoonup> addr"
  GraphPackages :: "string set"

record world =
  Heap :: "addr \<rightharpoonup> build_target"
  NextAddr :: addr
  Packages :: "addr \<rightharpoonup> package"
  Graph :: build_graph
  Deferred :: "(build_label \<times> string) list"
  IsPackageMemo :: "string \<rightharpoonup> bool"

text \<open>
  A callback runs on the world and returns its outcome with the world it leaves: a Go
  panic does not undo the writes made before it.
\<close>

type_synonym 'a outcome = "(error + 'a) \<times> world"

text \<open>
  The functions of package \<^verbatim>\<open>core\<close> whose behaviour the specification does not fix are
  parameters of the model. A label parser may panic, so it returns an error or a value.
\<close>

record core_api =
  ParseBuildFileLabel :: "string \<Rightarrow> string \<Rightarrow> error + (build_label \<times> string)"
  ParseBuildLabel :: "string \<Rightarrow> string \<Rightarrow> error + build_label"
  GraphAddDependency :: "build_graph \<Rightarrow> build_label \<Rightarrow> build_label \<Rightarrow> error + build_graph"
  CanSee :: "build_target \<Rightarrow> build_target \<Rightarrow> bool"
  OutDir :: "build_target \<Rightarrow> string"

text \<open>Modelled from the spec: a label is the pair of a package name and a name.\<close>

definition NewBuildLabel :: "string \<Rightarrow> string \<Rightarrow> build_label" where
  "NewBuildLabel pkgName name = \<lparr>PackageName = pkgName, Name = name\<rparr>"

text \<open>
  Modelled from the spec: a new target has its label, state Inactive (scenario 1 of
  section 8) and Go's zero value in every other field.
\<close>

definition NewBuildTarget :: "build_label \<Rightarrow> build_target" where
  "NewBuildTarget l =
     \<lparr>Label = l, State = Inactive, IsBinary = False, IsTest = False,
      NeedsTransitiveDependencies = False, OutputIsComplete = False, Containerise = False,
      NoTestOutput = False, SkipCache = False, TestOnly = False, Flakiness = 0,
      BuildTimeout = 0, TestTimeout = 0, BuildingDescription = [], Command = [],
      TestCommand = [], Labels = [], Sources = [], NamedSources = [], Data = [],
      Outputs = [], Licences = [], Visibility = [], DeclaredDependencies = {},
      ExportedDependencies = {}, Dependencies = []\<rparr>"

text \<open>Modelled from the spec: the labels of a target are a set of strings, kept in order.\<close>

definition AddLabel :: "build_target \<Rightarrow> string \<Rightarrow> build_target" where
  "AddLabel t l = (if l \<in> set (Labels t) then t else t\<lparr>Labels := Labels t @ [l]\<rparr>)"

text \<open>
  Modelled from the spec: \<^verbatim>\<open>dependencies\<close> and \<^verbatim>\<open>exportedDependencies\<close> are sets of
  labels; the two methods of \<^verbatim>\<open>core.BuildTarget\<close> insert into them.
\<close>

definition target_AddDependency :: "build_target \<Rightarrow> build_label \<Rightarrow> build_target" where
  "target_AddDependency t dep = t\<lparr>DeclaredDependencies := insert dep (DeclaredDependencies t)\<rparr>"

definition target_AddExportedDependency :: "build_target \<Rightarrow> build_label \<Rightarrow> build_target" where
  "target_AddExportedDependency t dep =
     t\<lparr>ExportedDependencies := insert dep (ExportedDependencies t)\<rparr>"

text \<open>Modelled from the spec: outputs are ordered by the order of the calls.\<close>

definition target_AddOutput :: "build_target \<Rightarrow> string \<Rightarrow> build_target" where
  "target_AddOutput t out = t\<lparr>Outputs := Outputs t @ [out]\<rparr>"

definition target_AddLicence :: "build_target \<Rightarrow> string \<Rightarrow> build_target" where
  "target_AddLicence t l = t\<lparr>Licences := Licences t @ [l]\<rparr>"

text \<open>
  Modelled from the spec: \<^verbatim>\<open>registerOutput(file, target)\<close> fails if another target already
  claims the file within the same package.
\<close>

definition RegisterOutput :: "package \<Rightarrow> string \<Rightarrow> addr \<Rightarrow> error + package" where
  "RegisterOutput pkg out a =
     (case PkgOutputs pkg out of
        None \<Rightarrow> Inr (pkg\<lparr>PkgOutputs := (PkgOutputs pkg)(out \<mapsto> a)\<rparr>)
      | Some b \<Rightarrow> if b = a then Inr pkg else Inl DuplicateOutput)"

text \<open>Modelled from the spec: the graph detects duplicate labels.\<close>

definition Graph_AddTarget :: "build_graph \<Rightarrow> build_label \<Rightarrow> addr \<Rightarrow> error + build_graph" where
  "Graph_AddTarget g l a =
     (case GraphTargets g l of
        None \<Rightarrow> Inr (g\<lparr>GraphTargets := (GraphTargets g)(l \<mapsto> a)\<rparr>)
      | Some b \<Rightarrow> Inl DuplicateGraphTarget)"

section \<open>interpreter.go: creating targets\<close>

text \<open>
  \<^verbatim>\<open>addTarget\<close> (lines 236-281). The new target object is built first; the three checks
  come next, in the source's order; then the target is stored in \<^verbatim>\<open>pkg.Targets\<close>, and
  only then handed to the graph when the package is already registered there. The
  object gets its address when it is stored: before that nothing refers to it.
\<close>

definition addTarget ::
  "addr \<Rightarrow> string \<Rightarrow> string \<Rightarrow> string \<Rightarrow> bool \<Rightarrow> bool \<Rightarrow> bool \<Rightarrow> bool \<Rightarrow> bool \<Rightarrow> bool \<Rightarrow> bool \<Rightarrow> bool
     \<Rightarrow> int \<Rightarrow> int \<Rightarrow> int \<Rightarrow> string \<Rightarrow> world \<Rightarrow> addr outcome" where
  "addTarget pkgPtr name cmd testCmd binary test needsTransitiveDeps outputIsComplete
      containerise noTestOutput skipCache testOnly flakiness buildTimeout testTimeout
      buildingDescription w =
     (case Packages w pkgPtr of
        None \<Rightarrow> (Inl NilPointer, w)
      | Some pkg \<Rightarrow>
          let t0 = NewBuildTarget (NewBuildLabel (PkgName pkg) name);
              t1 = t0\<lparr>IsBinary := binary, IsTest := test,
                      NeedsTransitiveDependencies := needsTransitiveDeps,
                      OutputIsComplete := outputIsComplete, Containerise := containerise,
                      NoTestOutput := noTestOutput, SkipCache := skipCache,
                      TestOnly := testOnly, Flakiness := flakiness,
                      BuildTimeout := buildTimeout, TestTimeout := testTimeout\<rparr>;
              t2 = (if containerise then AddLabel t1 ''container'' else t1);
              t3 = (if buildingDescription \<noteq> [] then
                      t2\<lparr>BuildingDescription := buildingDescription\<rparr> else t2);
              t4 = (if binary then AddLabel t3 ''bin'' else t3);
              target = t4\<lparr>Command := cmd, TestCommand := testCmd\<rparr>
          in if Targets pkg name \<noteq> None then (Inl DuplicateTarget, w)
             else if TestCommand target \<noteq> [] \<and> \<not> IsTest target then
               (Inl TestCommandButNotTest, w)
             else if IsTest target \<and> TestCommand target = [] then
               (Inl TestWithoutTestCommand, w)
             else
               let a = NextAddr w;
                   w1 = w\<lparr>Heap := (Heap w)(a \<mapsto> target), NextAddr := Suc a,
                          Packages := (Packages w)
                            (pkgPtr \<mapsto> pkg\<lparr>Targets := (Targets pkg)(name \<mapsto> a)\<rparr>)\<rparr>
               in if PkgName pkg \<in> GraphPackages (Graph w1) then
                    (case Graph_AddTarget (Graph w1) (Label target) a of
                       Inl e \<Rightarrow> (Inl e, w1)
                     | Inr g \<Rightarrow> (Inr a, w1\<lparr>Graph := g\<rparr>))
                  else (Inr a, w1))"

section \<open>interpreter.go: the post-build callbacks\<close>

text \<open>
  \<^verbatim>\<open>getTargetPost\<close> (lines 336-351): the target of the given name in the package; it
  panics when the package has no such target and when the target's state is Built or
  later. Nothing is written.
\<close>

definition getTargetPost :: "addr \<Rightarrow> string \<Rightarrow> world \<Rightarrow> error + addr" where
  "getTargetPost cPackage name w =
     (case Packages w cPackage of
        None \<Rightarrow> Inl NilPointer
      | Some pkg \<Rightarrow>
          (case Targets pkg name of
             None \<Rightarrow> Inl UnknownTarget
           | Some a \<Rightarrow>
               (case Heap w a of
                  None \<Rightarrow> Inl NilPointer
                | Some target \<Rightarrow>
                    if state_rank (State target) \<ge> state_rank Built then
                      Inl ImmutableBuiltTarget
                    else Inr a)))"

text \<open>Writing through a target pointer.\<close>

definition update_target :: "addr \<Rightarrow> (build_target \<Rightarrow> build_target) \<Rightarrow> world \<Rightarrow> world" where
  "update_target a f w =
     (case Heap w a of
        None \<Rightarrow> w
      | Some t \<Rightarrow> w\<lparr>Heap := (Heap w)(a \<mapsto> f t)\<rparr>)"

text \<open>
  \<^verbatim>\<open>AddDependency\<close> (lines 299-308). The label is parsed against the target's own
  package; the dependency is added to the target, then to the exported ones when the flag
  is set, then to the graph.
\<close>

definition AddDependency :: "core_api \<Rightarrow> addr \<Rightarrow> string \<Rightarrow> string \<Rightarrow> bool \<Rightarrow> world \<Rightarrow> unit outcome" where
  "AddDependency core cPackage cTarget cDep exported w =
     (case getTargetPost cPackage cTarget w of
        Inl e \<Rightarrow> (Inl e, w)
      | Inr a \<Rightarrow>
          (case Heap w a of
             None \<Rightarrow> (Inl NilPointer, w)
           | Some target \<Rightarrow>
               (case ParseBuildFileLabel core cDep (PackageName (Label target)) of
                  Inl e \<Rightarrow> (Inl e, w)
                | Inr (dep, file) \<Rightarrow>
                    let w1 = update_target a (\<lambda>t. target_AddDependency t dep) w;
                        w2 = (if exported then
                                update_target a (\<lambda>t. target_AddExportedDependency t dep) w1
                              else w1)
                    in (case GraphAddDependency core (Graph w2) (Label target) dep of
                          Inl e \<Rightarrow> (Inl e, w2)
                        | Inr g \<Rightarrow> (Inr (), w2\<lparr>Graph := g\<rparr>)))))"

text \<open>\<^verbatim>\<open>AddOutputPost\<close> (lines 310-317).\<close>

definition AddOutputPost :: "addr \<Rightarrow> string \<Rightarrow> string \<Rightarrow> world \<Rightarrow> unit outcome" where
  "AddOutputPost cPackage cTarget out w =
     (case getTargetPost cPackage cTarget w of
        Inl e \<Rightarrow> (Inl e, w)
      | Inr a \<Rightarrow>
          (case Packages w cPackage of
             None \<Rightarrow> (Inl NilPointer, w)
           | Some pkg \<Rightarrow>
               (case RegisterOutput pkg out a of
                  Inl e \<Rightarrow> (Inl e, w)
                | Inr pkg' \<Rightarrow>
                    (Inr (), update_target a (\<lambda>t. target_AddOutput t out)
                               (w\<lparr>Packages := (Packages w)(cPackage \<mapsto> pkg')\<rparr>)))))"

text \<open>\<^verbatim>\<open>AddLicencePost\<close> (lines 319-323).\<close>

definition AddLicencePost :: "addr \<Rightarrow> string \<Rightarrow> string \<Rightarrow> world \<Rightarrow> unit outcome" where
  "AddLicencePost cPackage cTarget cLicence w =
     (case getTargetPost cPackage cTarget w of
        Inl e \<Rightarrow> (Inl e, w)
      | Inr a \<Rightarrow> (Inr (), update_target a (\<lambda>t. target_AddLicence t cLicence) w))"

text \<open>\<^verbatim>\<open>SetCommand\<close> (lines 325-334).\<close>

definition SetCommand :: "addr \<Rightarrow> string \<Rightarrow> string \<Rightarrow> world \<Rightarrow> unit outcome" where
  "SetCommand cPackage cTarget cCommand w =
     (case getTargetPost cPackage cTarget w of
        Inl e \<Rightarrow> (Inl e, w)
      | Inr a \<Rightarrow> (Inr (), update_target a (\<lambda>t. t\<lparr>Command := cCommand\<rparr>) w))"

text \<open>The four post-build callbacks that write to a target, as one type of calls.\<close>

datatype post_call =
    CallAddDependency string string bool
  | CallAddOutputPost string string
  | CallAddLicencePost string string
  | CallSetCommand string string

fun post_call_target :: "post_call \<Rightarrow> string" where
  "post_call_target (CallAddDependency cTarget cDep exported) = cTarget"
| "post_call_target (CallAddOutputPost cTarget out) = cTarget"
| "post_call_target (CallAddLicencePost cTarget l) = cTarget"
| "post_call_target (CallSetCommand cTarget c) = cTarget"

fun run_post_call :: "core_api \<Rightarrow> addr \<Rightarrow> post_call \<Rightarrow> world \<Rightarrow> unit outcome" where
  "run_post_call core cPackage (CallAddDependency cTarget cDep exported) w =
     AddDependency core cPackage cTarget cDep exported w"
| "run_post_call core cPackage (CallAddOutputPost cTarget out) w =
     AddOutputPost cPackage cTarget out w"
| "run_post_call core cPackage (CallAddLicencePost cTarget l) w =
     AddLicencePost cPackage cTarget l w"
| "run_post_call core cPackage (CallSetCommand cTarget c) w =
     SetCommand cPackage cTarget c w"

section \<open>interpreter.go: the dependency callbacks of the parse\<close>

text \<open>\<^verbatim>\<open>AddDep\<close> (lines 413-418) and \<^verbatim>\<open>AddExportedDep\<close> (lines 420-426).\<close>

definition AddDep :: "core_api \<Rightarrow> addr \<Rightarrow> string \<Rightarrow> world \<Rightarrow> unit outcome" where
  "AddDep core cTarget cDep w =
     (case Heap w cTarget of
        None \<Rightarrow> (Inl NilPointer, w)
      | Some target \<Rightarrow>
          (case ParseBuildFileLabel core cDep (PackageName (Label target)) of
             Inl e \<Rightarrow> (Inl e, w)
           | Inr (dep, file) \<Rightarrow>
               (Inr (), update_target cTarget (\<lambda>t. target_AddDependency t dep) w)))"

definition AddExportedDep :: "core_api \<Rightarrow> addr \<Rightarrow> string \<Rightarrow> world \<Rightarrow> unit outcome" where
  "AddExportedDep core cTarget cDep w =
     (case Heap w cTarget of
        None \<Rightarrow> (Inl NilPointer, w)
      | Some target \<Rightarrow>
          (case ParseBuildFileLabel core cDep (PackageName (Label target)) of
             Inl e \<Rightarrow> (Inl e, w)
           | Inr (dep, file) \<Rightarrow>
               let w1 = update_target cTarget (\<lambda>t. target_AddDependency t dep) w
               in (Inr (), update_target cTarget (\<lambda>t. target_AddExportedDependency t dep) w1)))"

text \<open>The dependency-adding callbacks as one type of calls, and a run of them.\<close>

datatype dep_call =
    DepAddDep addr string
  | DepAddExportedDep addr string
  | DepAddDependency addr string string bool

fun run_dep_call :: "core_api \<Rightarrow> dep_call \<Rightarrow> world \<Rightarrow> unit outcome" where
  "run_dep_call core (DepAddDep cTarget cDep) w = AddDep core cTarget cDep w"
| "run_dep_call core (DepAddExportedDep cTarget cDep) w = AddExportedDep core cTarget cDep w"
| "run_dep_call core (DepAddDependency cPackage cTarget cDep exported) w =
     AddDependency core cPackage cTarget cDep exported w"

text \<open>
  A sequence of calls stops at the first panic; the world is the one the calls made so
  far have left.
\<close>

fun run_dep_calls :: "core_api \<Rightarrow> dep_call list \<Rightarrow> world \<Rightarrow> unit outcome" where
  "run_dep_calls core [] w = (Inr (), w)"
| "run_dep_calls core (c # cs) w =
     (case run_dep_call core c w of
        (Inl e, w') \<Rightarrow> (Inl e, w')
      | (Inr u, w') \<Rightarrow> run_dep_calls core cs w')"

text \<open>The invariant of section 3: the exported dependencies of every target are among its dependencies.\<close>

definition exported_included :: "world \<Rightarrow> bool" where
  "exported_included w =
     (\<forall>a t. Heap w a = Some t \<longrightarrow> ExportedDependencies t \<subseteq> DeclaredDependencies t)"

section \<open>Strings and paths of the Go library\<close>

text \<open>
  Strings are byte sequences. \<^verbatim>\<open>strings.HasPrefix s p\<close> is \<open>prefix p s\<close>;
  \<^verbatim>\<open>strings.Contains\<close> looks for the substring at every position.
\<close>

fun strings_Contains :: "string \<Rightarrow> string \<Rightarrow> bool" where
  "strings_Contains [] sub = (sub = [])"
| "strings_Contains (c # cs) sub = (prefix sub (c # cs) \<or> strings_Contains cs sub)"

text \<open>\<^verbatim>\<open>strings.Split(s, "/")\<close> and \<^verbatim>\<open>strings.Join(elems, "/")\<close>.\<close>

fun split_slash :: "string \<Rightarrow> string list" where
  "split_slash [] = [[]]"
| "split_slash (c # cs) =
     (if c = CHR ''/'' then [] # split_slash cs
      else (case split_slash cs of [] \<Rightarrow> [[c]] | w # ws \<Rightarrow> (c # w) # ws))"

fun join_slash :: "string list \<Rightarrow> string" where
  "join_slash [] = []"
| "join_slash [e] = e"
| "join_slash (e # f # es) = e @ CHR ''/'' # join_slash (f # es)"

text \<open>
  Go's \<^verbatim>\<open>path.Clean\<close> reads the path element by element: an empty element and \<^verbatim>\<open>.\<close> are
  dropped; \<^verbatim>\<open>..\<close> removes the element before it when there is one that is not itself
  \<^verbatim>\<open>..\<close>, is dropped at the root of a rooted path, and is kept otherwise; any other
  element is kept. The result is the kept elements joined by slashes, after the leading
  slash of a rooted path, and \<^verbatim>\<open>.\<close> when that is empty.
\<close>

definition clean_step :: "bool \<Rightarrow> string list \<Rightarrow> string \<Rightarrow> string list" where
  "clean_step rooted acc e =
     (if e = [] \<or> e = ''.'' then acc
      else if e = ''..'' then
        (if acc \<noteq> [] \<and> last acc \<noteq> ''..'' then butlast acc
         else if rooted then acc
         else acc @ [e])
      else acc @ [e])"

definition path_rooted :: "string \<Rightarrow> bool" where
  "path_rooted p = (case p of [] \<Rightarrow> False | c # cs \<Rightarrow> c = CHR ''/'')"

definition path_elems :: "string \<Rightarrow> string list" where
  "path_elems p = foldl (clean_step (path_rooted p)) [] (split_slash p)"

definition path_Clean :: "string \<Rightarrow> string" where
  "path_Clean p =
     (if p = [] then ''.''
      else if path_rooted p then CHR ''/'' # join_slash (path_elems p)
      else if path_elems p = [] then ''.''
      else join_slash (path_elems p))"

text \<open>
  \<^verbatim>\<open>path.Join\<close>: the elements from the first non-empty one on, joined by slashes and
  cleaned; the empty string when every element is empty.
\<close>

definition path_Join :: "string list \<Rightarrow> string" where
  "path_Join elems =
     (case dropWhile (\<lambda>e. e = []) elems of
        [] \<Rightarrow> []
      | e # es \<Rightarrow> path_Clean (join_slash (e # es)))"

text \<open>
  \<^verbatim>\<open>path.Split\<close> cuts after the last slash; \<^verbatim>\<open>path.Dir\<close> is the first part, cleaned.
\<close>

definition path_Split :: "string \<Rightarrow> string \<times> string" where
  "path_Split p =
     (rev (dropWhile (\<lambda>c. c \<noteq> CHR ''/'') (rev p)), rev (takeWhile (\<lambda>c. c \<noteq> CHR ''/'') (rev p)))"

definition path_Dir :: "string \<Rightarrow> string" where
  "path_Dir p = path_Clean (fst (path_Split p))"

section \<open>The file system\<close>

text \<open>
  A file has a mode and a content; a directory lists its entries by name. One tree
  stands for the directory that relative paths start from; a rooted path is read from
  the same tree. A path that climbs out of the tree names nothing, and so does the
  empty path, as for \<^verbatim>\<open>os.Stat\<close>.
\<close>

datatype fs_node = File nat string | Dir "(string \<times> fs_node) list"

fun fs_child :: "fs_node \<Rightarrow> string \<Rightarrow> fs_node option" where
  "fs_child (File m c) n = None"
| "fs_child (Dir es) n = map_of es n"

fun fs_lookup :: "fs_node \<Rightarrow> string list \<Rightarrow> fs_node option" where
  "fs_lookup t [] = Some t"
| "fs_lookup t (n # ns) = (case fs_child t n of None \<Rightarrow> None | Some c \<Rightarrow> fs_lookup c ns)"

definition fs_stat :: "fs_node \<Rightarrow> string \<Rightarrow> fs_node option" where
  "fs_stat fs p =
     (if p = [] \<or> ''..'' \<in> set (path_elems p) then None else fs_lookup fs (path_elems p))"

fun is_dir :: "fs_node \<Rightarrow> bool" where
  "is_dir (File m c) = False"
| "is_dir (Dir es) = True"

text \<open>
  Modelled from the spec: \<^verbatim>\<open>core.PathExists\<close> says whether the path names a file or a
  directory, \<^verbatim>\<open>core.FileExists\<close> whether it names a file.
\<close>

definition PathExists :: "fs_node \<Rightarrow> string \<Rightarrow> bool" where
  "PathExists fs p = (fs_stat fs p \<noteq> None)"

definition FileExists :: "fs_node \<Rightarrow> string \<Rightarrow> bool" where
  "FileExists fs p = (case fs_stat fs p of None \<Rightarrow> False | Some n \<Rightarrow> \<not> is_dir n)"

section \<open>interpreter.go: packages and sources\<close>

text \<open>
  \<^verbatim>\<open>isPackageInternal\<close> (lines 676-683): a directory is a package when it holds a file
  with one of the configured build file names. \<^verbatim>\<open>isPackage\<close> (lines 665-674) answers from
  the memo when it has an entry for the name, and records its answer otherwise.
\<close>

definition isPackageInternal :: "fs_node \<Rightarrow> string list \<Rightarrow> string \<Rightarrow> bool" where
  "isPackageInternal fs buildFileNames name =
     list_ex (\<lambda>buildFileName. FileExists fs (path_Join [name, buildFileName])) buildFileNames"

definition isPackage ::
  "fs_node \<Rightarrow> string list \<Rightarrow> string \<Rightarrow> (string \<rightharpoonup> bool) \<Rightarrow> bool \<times> (string \<rightharpoonup> bool)" where
  "isPackage fs buildFileNames name memo =
     (case memo name of
        Some ret \<Rightarrow> (ret, memo)
      | None \<Rightarrow>
          let ret = isPackageInternal fs buildFileNames name
          in (ret, memo(name \<mapsto> ret)))"

text \<open>
  Modelled from the spec: \<^verbatim>\<open>core.LooksLikeABuildLabel\<close> holds of a string that starts with
  \<^verbatim>\<open>//\<close> or with a colon.
\<close>

definition LooksLikeABuildLabel :: "string \<Rightarrow> bool" where
  "LooksLikeABuildLabel str = (prefix ''//'' str \<or> prefix '':'' str)"

text \<open>
  The loop of \<^verbatim>\<open>parseSource\<close> (lines 378-382): from the directory of the joined path
  upwards, until the package's own directory or \<^verbatim>\<open>.\<close> is reached; it panics at the
  first directory that is a package. \<^verbatim>\<open>path.Dir\<close> of \<^verbatim>\<open>/\<close> is \<^verbatim>\<open>/\<close>, so the loop need not
  end: no result is the value \<open>None\<close>.
\<close>

partial_function (option) parseSource_loop ::
  "fs_node \<Rightarrow> string list \<Rightarrow> string \<Rightarrow> string \<Rightarrow> (string \<rightharpoonup> bool)
     \<Rightarrow> ((error + unit) \<times> (string \<rightharpoonup> bool)) option" where
  "parseSource_loop fs buildFileNames packageName dir memo =
     (if dir \<noteq> packageName \<and> dir \<noteq> ''.'' then
        (if fst (isPackage fs buildFileNames dir memo) then
           Some (Inl CrossPackageFile, snd (isPackage fs buildFileNames dir memo))
         else
           parseSource_loop fs buildFileNames packageName (path_Dir dir)
             (snd (isPackage fs buildFileNames dir memo)))
      else Some (Inr (), memo))"

declare parseSource_loop.simps [code]

text \<open>
  \<^verbatim>\<open>parseSource\<close> (lines 365-385). \<^verbatim>\<open>src[0]\<close> on the empty string is Go's index out of
  range panic.
\<close>

definition parseSource ::
  "core_api \<Rightarrow> fs_node \<Rightarrow> string list \<Rightarrow> string \<Rightarrow> string \<Rightarrow> (string \<rightharpoonup> bool)
     \<Rightarrow> ((error + build_input) \<times> (string \<rightharpoonup> bool)) option" where
  "parseSource core fs buildFileNames src packageName memo =
     (if LooksLikeABuildLabel src then
        (case ParseBuildFileLabel core src packageName of
           Inl e \<Rightarrow> Some (Inl e, memo)
         | Inr (label, file) \<Rightarrow>
             if file \<noteq> [] then Some (Inr (BuildFileLabel label file), memo)
             else Some (Inr (BuildLabelInput label), memo))
      else if strings_Contains src ''../'' then Some (Inl InvalidPath, memo)
      else if src = [] then Some (Inl IndexOutOfRange, memo)
      else if hd src = CHR ''/'' then Some (Inl AbsolutePath, memo)
      else if strings_Contains src ''/'' then
        (case parseSource_loop fs buildFileNames packageName
                (path_Dir (path_Join [packageName, src])) memo of
           None \<Rightarrow> None
         | Some (Inl e, memo') \<Rightarrow> Some (Inl e, memo')
         | Some (Inr u, memo') \<Rightarrow> Some (Inr (FileLabel src packageName), memo'))
      else Some (Inr (FileLabel src packageName), memo))"

text \<open>
  The three callbacks that take a source: \<^verbatim>\<open>AddSource\<close> (lines 354-361),
  \<^verbatim>\<open>AddNamedSource\<close> (lines 388-395) and \<^verbatim>\<open>AddData\<close> (lines 398-405). Each parses the
  string against the target's package, appends the input, and adds a label input to the
  dependencies.
\<close>

definition add_input ::
  "core_api \<Rightarrow> fs_node \<Rightarrow> string list \<Rightarrow> (build_input \<Rightarrow> build_target \<Rightarrow> build_target)
     \<Rightarrow> addr \<Rightarrow> string \<Rightarrow> world \<Rightarrow> unit outcome option" where
  "add_input core fs buildFileNames store cTarget cSource w =
     (case Heap w cTarget of
        None \<Rightarrow> Some (Inl NilPointer, w)
      | Some target \<Rightarrow>
          (case parseSource core fs buildFileNames cSource (PackageName (Label target))
                  (IsPackageMemo w) of
             None \<Rightarrow> None
           | Some (Inl e, memo) \<Rightarrow> Some (Inl e, w\<lparr>IsPackageMemo := memo\<rparr>)
           | Some (Inr source, memo) \<Rightarrow>
               let w1 = update_target cTarget (store source) (w\<lparr>IsPackageMemo := memo\<rparr>)
               in (case input_Label source of
                     None \<Rightarrow> Some (Inr (), w1)
                   | Some label \<Rightarrow>
                       Some (Inr (), update_target cTarget
                                       (\<lambda>t. target_AddDependency t label) w1))))"

definition AddSource ::
  "core_api \<Rightarrow> fs_node \<Rightarrow> string list \<Rightarrow> addr \<Rightarrow> string \<Rightarrow> world \<Rightarrow> unit outcome option" where
  "AddSource core fs buildFileNames cTarget cSource w =
     add_input core fs buildFileNames (\<lambda>source t. t\<lparr>Sources := Sources t @ [source]\<rparr>)
       cTarget cSource w"

definition AddNamedSource ::
  "core_api \<Rightarrow> fs_node \<Rightarrow> string list \<Rightarrow> addr \<Rightarrow> string \<Rightarrow> string \<Rightarrow> world
     \<Rightarrow> unit outcome option" where
  "AddNamedSource core fs buildFileNames cTarget cName cSource w =
     add_input core fs buildFileNames
       (\<lambda>source t. t\<lparr>NamedSources := NamedSources t @ [(cName, source)]\<rparr>) cTarget cSource w"

definition AddData ::
  "core_api \<Rightarrow> fs_node \<Rightarrow> string list \<Rightarrow> addr \<Rightarrow> string \<Rightarrow> world \<Rightarrow> unit outcome option" where
  "AddData core fs buildFileNames cTarget cData w =
     add_input core fs buildFileNames (\<lambda>source t. t\<lparr>Data := Data t @ [source]\<rparr>)
       cTarget cData w"

section \<open>Notions used in the statements about paths\<close>

text \<open>
  A proper path element is a name: not empty, without a slash, and neither \<^verbatim>\<open>.\<close> nor
  \<^verbatim>\<open>..\<close>. A clean relative path is the slash-separated sequence of its own elements, all
  of them proper; the empty string, the name of the root package, is one.
\<close>

definition proper_elem :: "string \<Rightarrow> bool" where
  "proper_elem e = (e \<noteq> [] \<and> CHR ''/'' \<notin> set e \<and> e \<noteq> ''.'' \<and> e \<noteq> ''..'')"

definition clean_relative :: "string \<Rightarrow> bool" where
  "clean_relative p = (list_all proper_elem (path_elems p) \<and> p = join_slash (path_elems p))"

text \<open>The memo of \<^verbatim>\<open>isPackage\<close> agrees with the file system.\<close>

definition memo_consistent :: "fs_node \<Rightarrow> string list \<Rightarrow> (string \<rightharpoonup> bool) \<Rightarrow> bool" where
  "memo_consistent fs buildFileNames memo =
     (\<forall>name ret. memo name = Some ret \<longrightarrow> ret = isPackageInternal fs buildFileNames name)"

text \<open>
  In the words of the specification: the parent directories of the file \<open>p/s\<close> that lie
  strictly between it and the package directory \<open>p\<close>, that is, the directories below \<open>p\<close>
  on the way down to the file, \<open>p\<close> itself left out.
\<close>

definition dirs_between :: "string \<Rightarrow> string \<Rightarrow> string list" where
  "dirs_between p s =
     (let ps = path_elems p; es = path_elems (path_Join [p, s])
      in if prefix ps es then map (\<lambda>k. join_slash (take k es)) [Suc (length ps) ..< length es]
         else [])"

section \<open>interpreter.go: subinclude\<close>

text \<open>
  \<^verbatim>\<open>pyDeferParse\<close>, the sentinel that tells the interpreter that the parse is deferred.
\<close>

definition pyDeferParse :: string where
  "pyDeferParse = ''_DEFER_''"

text \<open>
  Modelled from the spec: \<^verbatim>\<open>deferParse(label, pkg)\<close> records a deferred parse for the pair
  of the label and the current package.
\<close>

definition deferParse :: "build_label \<Rightarrow> package \<Rightarrow> world \<Rightarrow> world" where
  "deferParse label pkg w = w\<lparr>Deferred := Deferred w @ [(label, PkgName pkg)]\<rparr>"

text \<open>\<^verbatim>\<open>core.State.Graph.Target(label)\<close>: the target of that label in the graph, or \<^verbatim>\<open>nil\<close>.\<close>

definition Graph_Target :: "world \<Rightarrow> build_label \<Rightarrow> build_target option" where
  "Graph_Target w label =
     (case GraphTargets (Graph w) label of None \<Rightarrow> None | Some a \<Rightarrow> Heap w a)"

text \<open>
  \<^verbatim>\<open>GetSubincludeFile\<close> (lines 508-530). The checks are in the source's order: a target
  that is not in the graph, then visibility, then the number of outputs, and the state
  last.
\<close>

definition GetSubincludeFile :: "core_api \<Rightarrow> addr \<Rightarrow> string \<Rightarrow> world \<Rightarrow> string outcome" where
  "GetSubincludeFile core cPackage cLabel w =
     (case Packages w cPackage of
        None \<Rightarrow> (Inl NilPointer, w)
      | Some pkg \<Rightarrow>
          (case ParseBuildLabel core cLabel (PkgName pkg) of
             Inl e \<Rightarrow> (Inl e, w)
           | Inr label \<Rightarrow>
               let pkgLabel = \<lparr>PackageName = PkgName pkg, Name = ''all''\<rparr>
               in (case Graph_Target w label of
                     None \<Rightarrow>
                       if PackageName label \<notin> GraphPackages (Graph w) then
                         (Inr pyDeferParse, deferParse label pkg w)
                       else (Inl Unsubincludable, w)
                   | Some target \<Rightarrow>
                       if \<not> CanSee core (NewBuildTarget pkgLabel) target then
                         (Inl VisibilityViolation, w)
                       else if length (Outputs target) \<noteq> 1 then (Inl MultipleOutputs, w)
                       else if state_rank (State target) < state_rank Built then
                         (Inr pyDeferParse, deferParse label pkg w)
                       else
                         (Inr (path_Join [OutDir core target, hd (Outputs target)]), w))))"

section \<open>interpreter.go: the labels of a target and its dependencies\<close>


definition space_runes :: "string list" where
  "space_runes =
     [[CHR 0x09], [CHR 0x0A], [CHR 0x0B], [CHR 0x0C], [CHR 0x0D], [CHR 0x20],
      [CHR 0xC2, CHR 0x85], [CHR 0xC2, CHR 0xA0],
      [CHR 0xE1, CHR 0x9A, CHR 0x80],
      [CHR 0xE2, CHR 0x80, CHR 0x80], [CHR 0xE2, CHR 0x80, CHR 0x81],
      [CHR 0xE2, CHR 0x80, CHR 0x82], [CHR 0xE2, CHR 0x80, CHR 0x83],
      [CHR 0xE2, CHR 0x80, CHR 0x84], [CHR 0xE2, CHR 0x80, CHR 0x85],
      [CHR 0xE2, CHR 0x80, CHR 0x86], [CHR 0xE2, CHR 0x80, CHR 0x87],
      [CHR 0xE2, CHR 0x80, CHR 0x88], [CHR 0xE2, CHR 0x80, CHR 0x89],
      [CHR 0xE2, CHR 0x80, CHR 0x8A],
      [CHR 0xE2, CHR 0x80, CHR 0xA8], [CHR 0xE2, CHR 0x80, CHR 0xA9],
      [CHR 0xE2, CHR 0x80, CHR 0xAF],
      [CHR 0xE2, CHR 0x81, CHR 0x9F],
      [CHR 0xE3, CHR 0x80, CHR 0x80]]"

text \<open>The number of bytes of the white space character at the start, or at the end.\<close>

definition leading_space :: "string \<Rightarrow> nat" where
  "leading_space s =
     (case find (\<lambda>w. prefix w s) space_runes of None \<Rightarrow> 0 | Some w \<Rightarrow> length w)"

definition trailing_space :: "string \<Rightarrow> nat" where
  "trailing_space s =
     (case find (\<lambda>w. suffix w s) space_runes of None \<Rightarrow> 0 | Some w \<Rightarrow> length w)"

function TrimLeftSpace :: "string \<Rightarrow> string" where
  "TrimLeftSpace s =
     (if leading_space s = 0 then s else TrimLeftSpace (drop (leading_space s) s))"
  by pat_completeness auto
termination
proof (relation "measure length")
  show "wf (measure length)"
    by simp
next
  fix s :: string
  assume some: "leading_space s \<noteq> 0"
  show "(drop (leading_space s) s, s) \<in> measure length"
  proof (cases s)
    case Nil
    then show ?thesis
      using some by (simp add: leading_space_def space_runes_def)
  next
    case (Cons c cs)
    then show ?thesis
      using some by simp
  qed
qed

function TrimRightSpace :: "string \<Rightarrow> string" where
  "TrimRightSpace s =
     (if trailing_space s = 0 then s
      else TrimRightSpace (take (length s - trailing_space s) s))"
  by pat_completeness auto
termination
proof (relation "measure length")
  show "wf (measure length)"
    by simp
next
  fix s :: string
  assume some: "trailing_space s \<noteq> 0"
  show "(take (length s - trailing_space s) s, s) \<in> measure length"
  proof (cases s)
    case Nil
    then show ?thesis
      using some by (simp add: trailing_space_def space_runes_def)
  next
    case (Cons c cs)
    then show ?thesis
      using some by simp
  qed
qed

declare TrimLeftSpace.simps [simp del]
declare TrimRightSpace.simps [simp del]

definition strings_TrimSpace :: "string \<Rightarrow> string" where
  "strings_TrimSpace s = TrimRightSpace (TrimLeftSpace s)"




section \<open>Notions used in the statements about labels\<close>






section \<open>Pattern matching and directory walks of the Go library\<close>

text \<open>
  The regular expressions of package \<^verbatim>\<open>regexp\<close> and the shell patterns of
  \<^verbatim>\<open>filepath.Match\<close> are parameters of the model: compiling an expression gives a
  predicate on strings or fails, and matching a name against a pattern gives a truth
  value or fails on a malformed pattern.
\<close>

record match_api =
  RegexpCompile :: "string \<Rightarrow> (string \<Rightarrow> bool) option"
  FilepathMatch :: "string \<Rightarrow> string \<Rightarrow> error + bool"

text \<open>\<^verbatim>\<open>strings.Replace(s, old, new, -1)\<close> for a non-empty \<^verbatim>\<open>old\<close>.\<close>

function strings_Replace :: "string \<Rightarrow> string \<Rightarrow> string \<Rightarrow> string" where
  "strings_Replace s old new =
     (if s = [] \<or> old = [] then s
      else if prefix old s then new @ strings_Replace (drop (length old) s) old new
      else hd s # strings_Replace (tl s) old new)"
  by pat_completeness auto
termination
  by (relation "measure (\<lambda>(s, old, new). length s)") (auto simp: neq_Nil_conv)

declare strings_Replace.simps [simp del]

text \<open>
  \<^verbatim>\<open>filepath.Glob\<close>. A pattern without the characters \<^verbatim>\<open>*\<close>, \<^verbatim>\<open>?\<close> and \<^verbatim>\<open>[\<close> names at most
  itself. Otherwise the directory part of the pattern is expanded first and the last
  element is matched against the sorted names of each directory found.
\<close>

definition hasMeta :: "string \<Rightarrow> bool" where
  "hasMeta p = list_ex (\<lambda>c. c = CHR ''*'' \<or> c = CHR ''?'' \<or> c = CHR ''['') p"

definition cleanGlobPath :: "string \<Rightarrow> string" where
  "cleanGlobPath p = (if p = [] then ''.'' else if p = ''/'' then p else butlast p)"

text \<open>The names of a directory, sorted, as \<^verbatim>\<open>readDirNames\<close> returns them.\<close>

definition dir_names :: "(string \<times> fs_node) list \<Rightarrow> string list" where
  "dir_names es = sort (remdups (map fst es))"

fun filepath_glob_names ::
  "match_api \<Rightarrow> string \<Rightarrow> string \<Rightarrow> string list \<Rightarrow> string list \<Rightarrow> error + string list" where
  "filepath_glob_names lib dir pattern [] m = Inr m"
| "filepath_glob_names lib dir pattern (n # ns) m =
     (case FilepathMatch lib pattern n of
        Inl e \<Rightarrow> Inl e
      | Inr matched \<Rightarrow>
          filepath_glob_names lib dir pattern ns
            (if matched then m @ [path_Join [dir, n]] else m))"

definition filepath_glob ::
  "match_api \<Rightarrow> fs_node \<Rightarrow> string \<Rightarrow> string \<Rightarrow> string list \<Rightarrow> error + string list" where
  "filepath_glob lib fs dir pattern matches =
     (case fs_stat fs dir of
        None \<Rightarrow> Inr matches
      | Some (File m c) \<Rightarrow> Inr matches
      | Some (Dir es) \<Rightarrow> filepath_glob_names lib dir pattern (dir_names es) matches)"

fun filepath_glob_dirs ::
  "match_api \<Rightarrow> fs_node \<Rightarrow> string \<Rightarrow> string list \<Rightarrow> string list \<Rightarrow> error + string list" where
  "filepath_glob_dirs lib fs file [] matches = Inr matches"
| "filepath_glob_dirs lib fs file (d # ds) matches =
     (case filepath_glob lib fs d file matches of
        Inl e \<Rightarrow> Inl e
      | Inr matches' \<Rightarrow> filepath_glob_dirs lib fs file ds matches')"

function filepath_Glob :: "match_api \<Rightarrow> fs_node \<Rightarrow> string \<Rightarrow> error + string list" where
  "filepath_Glob lib fs pattern =
     (if \<not> hasMeta pattern then
        (if fs_stat fs pattern = None then Inr [] else Inr [pattern])
      else
        let dir = cleanGlobPath (fst (path_Split pattern)); file = snd (path_Split pattern)
        in if \<not> hasMeta dir then filepath_glob lib fs dir file []
           else if dir = pattern then Inl BadPattern
           else (case filepath_Glob lib fs dir of
                   Inl e \<Rightarrow> Inl e
                 | Inr m \<Rightarrow> filepath_glob_dirs lib fs file m []))"
  by pat_completeness auto
termination
proof (relation "measure (\<lambda>(lib, fs, pattern). length pattern)")
  show "wf (measure (\<lambda>(lib, fs, pattern). length pattern))"
    by simp
next
  fix lib :: match_api and fs :: fs_node and pattern dir :: string
  assume dir: "dir = cleanGlobPath (fst (path_Split pattern))" and meta: "\<not> \<not> hasMeta dir"
  have le: "length (fst (path_Split pattern)) \<le> length pattern"
    using length_dropWhile_le [of "\<lambda>c. c \<noteq> CHR ''/''" "rev pattern"]
    by (simp add: path_Split_def)
  have "fst (path_Split pattern) \<noteq> [] \<and> fst (path_Split pattern) \<noteq> ''/''"
    using dir meta by (auto simp: cleanGlobPath_def hasMeta_def split: if_splits)
  then have "length dir < length (fst (path_Split pattern))"
    using dir by (simp add: cleanGlobPath_def)
  with le show "((lib, fs, dir), (lib, fs, pattern)) \<in> measure (\<lambda>(lib, fs, pattern). length pattern)"
    by simp
qed

declare filepath_Glob.simps [simp del]

text \<open>
  \<^verbatim>\<open>filepath.Walk\<close>. The function of the caller sees every file and directory below the
  root in the order of the sorted names, and answers with \<^verbatim>\<open>nil\<close>, with \<^verbatim>\<open>SkipDir\<close> or
  with an error. \<^verbatim>\<open>SkipDir\<close> on a directory leaves its entries out; any other answer than
  \<^verbatim>\<open>nil\<close> ends the walk of the directory that is being read.
\<close>

datatype walk_verdict = WalkNil | WalkSkipDir | WalkError error

function walk ::
  "(string \<Rightarrow> fs_node option \<Rightarrow> error option \<Rightarrow> 's \<Rightarrow> walk_verdict \<times> 's)
     \<Rightarrow> string \<Rightarrow> fs_node \<Rightarrow> 's \<Rightarrow> walk_verdict \<times> 's" where
  "walk walkFn path info s =
     (case walkFn path (Some info) None s of
        (WalkNil, s1) \<Rightarrow>
          (case info of
             File m c \<Rightarrow> (WalkNil, s1)
           | Dir es \<Rightarrow>
               foldl (\<lambda>r name.
                        if fst r \<noteq> WalkNil then r
                        else (case map_of es name of
                                None \<Rightarrow> r
                              | Some child \<Rightarrow>
                                  (case walk walkFn (path_Join [path, name]) child (snd r) of
                                     (WalkSkipDir, s3) \<Rightarrow>
                                       if is_dir child then (WalkNil, s3) else (WalkSkipDir, s3)
                                   | r' \<Rightarrow> r')))
                     (WalkNil, s1) (dir_names es))
      | (WalkSkipDir, s1) \<Rightarrow> if is_dir info then (WalkNil, s1) else (WalkSkipDir, s1)
      | (WalkError e, s1) \<Rightarrow> (WalkError e, s1))"
  by pat_completeness auto
termination
proof (relation "measure (\<lambda>(walkFn, path, info, s). size info)")
  show "wf (measure (\<lambda>(walkFn, path, info, s). size info))"
    by simp
next
  fix es :: "(string \<times> fs_node) list" and name :: string and child info :: fs_node
  assume "info = Dir es" and "map_of es name = Some child"
  then have "(name, child) \<in> set es"
    by (simp add: map_of_SomeD)
  then have "size child < size (Dir es)"
    by (induction es) auto
  then show "((walkFn, path_Join [path, name], child, snd r), (walkFn, path, info, s))
      \<in> measure (\<lambda>(walkFn, path, info, s). size info)" for walkFn path r s
    using \<open>info = Dir es\<close> by simp
qed

declare walk.simps [simp del]

definition filepath_Walk ::
  "fs_node \<Rightarrow> string \<Rightarrow> (string \<Rightarrow> fs_node option \<Rightarrow> error option \<Rightarrow> 's \<Rightarrow> walk_verdict \<times> 's)
     \<Rightarrow> 's \<Rightarrow> walk_verdict \<times> 's" where
  "filepath_Walk fs root walkFn s =
     (case (case fs_stat fs root of
              None \<Rightarrow> walkFn root None (Some NotExist) s
            | Some info \<Rightarrow> walk walkFn root info s) of
        (WalkSkipDir, s') \<Rightarrow> (WalkNil, s')
      | r \<Rightarrow> r)"

section \<open>interpreter.go: glob\<close>

text \<open>
  The function that \<^verbatim>\<open>glob\<close> hands to \<^verbatim>\<open>filepath.Walk\<close> (lines 648-657). Its state is
  the list of matches and the memo of \<^verbatim>\<open>isPackage\<close>.
\<close>

definition glob_walkFn ::
  "fs_node \<Rightarrow> string list \<Rightarrow> string \<Rightarrow> (string \<Rightarrow> bool) \<Rightarrow> string \<Rightarrow> fs_node option
     \<Rightarrow> error option \<Rightarrow> string list \<times> (string \<rightharpoonup> bool)
     \<Rightarrow> walk_verdict \<times> string list \<times> (string \<rightharpoonup> bool)" where
  "glob_walkFn fs buildFileNames rootPath regex name info err s =
     (case err of
        Some e \<Rightarrow> (WalkError e, s)
      | None \<Rightarrow>
          (case info of
             None \<Rightarrow> (WalkError NilPointer, s)
           | Some node \<Rightarrow>
               if is_dir node \<and> name \<noteq> rootPath then
                 (if fst (isPackage fs buildFileNames name (snd s)) then
                    (WalkSkipDir, fst s, snd (isPackage fs buildFileNames name (snd s)))
                  else (WalkNil, fst s, snd (isPackage fs buildFileNames name (snd s))))
               else if \<not> is_dir node \<and> regex name then (WalkNil, fst s @ [name], snd s)
               else (WalkNil, s)))"

text \<open>
  \<^verbatim>\<open>glob\<close> (lines 631-659): without \<^verbatim>\<open>**\<close> in the pattern the library's expansion of the
  joined pattern; with it, the pattern is rewritten to a regular expression and matched
  against the names of a walk from the root path.
\<close>

definition glob ::
  "match_api \<Rightarrow> fs_node \<Rightarrow> string list \<Rightarrow> string \<Rightarrow> string \<Rightarrow> (string \<rightharpoonup> bool)
     \<Rightarrow> (error + string list) \<times> (string \<rightharpoonup> bool)" where
  "glob lib fs buildFileNames rootPath pattern memo =
     (if \<not> strings_Contains pattern ''**'' then
        (filepath_Glob lib fs (path_Join [rootPath, pattern]), memo)
      else
        let p1 = strings_Replace pattern ''*'' ''[^/]*'';
            p2 = strings_Replace p1 ''[^/]*[^/]*'' ''.*'';
            p3 = strings_Replace p2 ''/.*/'' ''/(?:.*/)?''
        in (case RegexpCompile lib p3 of
              None \<Rightarrow> (Inl BadPattern, memo)
            | Some regex \<Rightarrow>
                (case filepath_Walk fs rootPath
                        (glob_walkFn fs buildFileNames rootPath regex) ([], memo) of
                   (WalkError e, matches, memo') \<Rightarrow> (Inl e, memo')
                 | (v, matches, memo') \<Rightarrow> (Inr matches, memo'))))"

text \<open>\<^verbatim>\<open>shouldExcludeMatch\<close> (lines 618-629).\<close>

fun shouldExcludeMatch :: "match_api \<Rightarrow> string \<Rightarrow> string \<Rightarrow> string list \<Rightarrow> error + bool" where
  "shouldExcludeMatch lib match packageName [] = Inr False"
| "shouldExcludeMatch lib match packageName (e # es) =
     (case FilepathMatch lib (path_Join [packageName, e]) match of
        Inl err \<Rightarrow> Inl err
      | Inr matches \<Rightarrow>
          if matches then Inr True else shouldExcludeMatch lib match packageName es)"

text \<open>
  The inner loop of \<^verbatim>\<open>Glob\<close> (lines 587-601) over the matches of one pattern. The slice
  \<^verbatim>\<open>filename[len(packageName)+1:]\<close> is out of range when the file name is not longer
  than the package name.
\<close>

definition hidden_file :: "string \<Rightarrow> bool" where
  "hidden_file filename =
     (let file = snd (path_Split filename)
      in prefix ''.'' file \<or> (prefix ''#'' file \<and> suffix ''#'' file))"

fun Glob_filter ::
  "match_api \<Rightarrow> string \<Rightarrow> string list \<Rightarrow> bool \<Rightarrow> string list \<Rightarrow> string list
     \<Rightarrow> error + string list" where
  "Glob_filter lib packageName excludes includeHidden [] filenames = Inr filenames"
| "Glob_filter lib packageName excludes includeHidden (filename # matches) filenames =
     (if \<not> includeHidden \<and> hidden_file filename then
        Glob_filter lib packageName excludes includeHidden matches filenames
      else
        (case shouldExcludeMatch lib filename packageName excludes of
           Inl err \<Rightarrow> Inl err
         | Inr True \<Rightarrow> Glob_filter lib packageName excludes includeHidden matches filenames
         | Inr False \<Rightarrow>
             if prefix packageName filename then
               (if length filename < length packageName + 1 then Inl IndexOutOfRange
                else Glob_filter lib packageName excludes includeHidden matches
                       (filenames @ [drop (length packageName + 1) filename]))
             else Glob_filter lib packageName excludes includeHidden matches
                    (filenames @ [filename])))"

text \<open>\<^verbatim>\<open>Glob\<close> (lines 579-604): the patterns in turn; an error of \<^verbatim>\<open>glob\<close> is a panic.\<close>

fun Glob_includes ::
  "match_api \<Rightarrow> fs_node \<Rightarrow> string list \<Rightarrow> string \<Rightarrow> string list \<Rightarrow> string list \<Rightarrow> bool
     \<Rightarrow> string list \<Rightarrow> (string \<rightharpoonup> bool) \<Rightarrow> (error + string list) \<times> (string \<rightharpoonup> bool)" where
  "Glob_includes lib fs buildFileNames packageName [] excludes includeHidden filenames memo =
     (Inr filenames, memo)"
| "Glob_includes lib fs buildFileNames packageName (pattern # includes) excludes includeHidden
      filenames memo =
     (case glob lib fs buildFileNames packageName pattern memo of
        (Inl err, memo') \<Rightarrow> (Inl err, memo')
      | (Inr matches, memo') \<Rightarrow>
          (case Glob_filter lib packageName excludes includeHidden matches filenames of
             Inl err \<Rightarrow> (Inl err, memo')
           | Inr filenames' \<Rightarrow>
               Glob_includes lib fs buildFileNames packageName includes excludes includeHidden
                 filenames' memo'))"

definition Glob ::
  "match_api \<Rightarrow> fs_node \<Rightarrow> string list \<Rightarrow> string \<Rightarrow> string list \<Rightarrow> string list \<Rightarrow> bool
     \<Rightarrow> (string \<rightharpoonup> bool) \<Rightarrow> (error + string list) \<times> (string \<rightharpoonup> bool)" where
  "Glob lib fs buildFileNames packageName includes excludes includeHidden memo =
     Glob_includes lib fs buildFileNames packageName includes excludes includeHidden [] memo"

section \<open>Notions used in the statements about glob\<close>

text \<open>Every name in the tree is a proper path element, as in a real file system.\<close>

fun fs_names_proper :: "fs_node \<Rightarrow> bool" where
  "fs_names_proper (File m c) = True"
| "fs_names_proper (Dir es) =
     list_all (\<lambda>e. proper_elem (fst e) \<and> fs_names_proper (snd e)) es"

text \<open>
  A name that the walk of \<^verbatim>\<open>glob\<close> may record: it lies below the root, and no directory on
  the way from the root to it, the root left out, is a package.
\<close>

definition reached :: "fs_node \<Rightarrow> string list \<Rightarrow> string list \<Rightarrow> string \<Rightarrow> bool" where
  "reached fs bfn rs m =
     (\<exists>ns. m = join_slash (rs @ ns) \<and> list_all proper_elem ns
        \<and> (\<forall>k. 0 < k \<and> k < length ns
               \<longrightarrow> \<not> isPackageInternal fs bfn (join_slash (rs @ take k ns))))"

section \<open>Changing the file system\<close>

text \<open>
  The entries of a directory are read as a map from names to nodes (the first entry of
  a name counts), so an entry is replaced with \<open>AList.update\<close> and removed with
  \<open>AList.delete\<close>.

  \<^verbatim>\<open>os.RemoveAll\<close> removes the path and everything below it, and succeeds when there is
  nothing at the path.
\<close>

fun fs_remove :: "fs_node \<Rightarrow> string list \<Rightarrow> fs_node" where
  "fs_remove t [] = t"
| "fs_remove (File m c) (n # ns) = File m c"
| "fs_remove (Dir es) [n] = Dir (AList.delete n es)"
| "fs_remove (Dir es) (n # ns) =
     (case map_of es n of
        None \<Rightarrow> Dir es
      | Some c \<Rightarrow> Dir (AList.update n (fs_remove c ns) es))"

text \<open>
  \<^verbatim>\<open>os.MkdirAll\<close> creates the directory and the missing directories above it; it fails
  when one of them exists as a file.
\<close>

fun fs_mkdir_all :: "fs_node \<Rightarrow> string list \<Rightarrow> error + fs_node" where
  "fs_mkdir_all (File m c) ns = Inl NotADirectory"
| "fs_mkdir_all (Dir es) [] = Inr (Dir es)"
| "fs_mkdir_all (Dir es) (n # ns) =
     (case fs_mkdir_all (case map_of es n of None \<Rightarrow> Dir [] | Some c \<Rightarrow> c) ns of
        Inl e \<Rightarrow> Inl e
      | Inr c' \<Rightarrow> Inr (Dir (AList.update n c' es)))"

text \<open>Placing a node at a path whose parent directory exists.\<close>

fun fs_put :: "fs_node \<Rightarrow> string list \<Rightarrow> fs_node \<Rightarrow> error + fs_node" where
  "fs_put t [] new = Inl InvalidArgument"
| "fs_put (File m c) (n # ns) new = Inl NotADirectory"
| "fs_put (Dir es) [n] new = Inr (Dir (AList.update n new es))"
| "fs_put (Dir es) (n # ns) new =
     (case map_of es n of
        None \<Rightarrow> Inl NotExist
      | Some c \<Rightarrow>
          (case fs_put c ns new of
             Inl e \<Rightarrow> Inl e
           | Inr c' \<Rightarrow> Inr (Dir (AList.update n c' es))))"

text \<open>The same tree with the mode of every file in it set.\<close>

fun set_mode :: "nat \<Rightarrow> fs_node \<Rightarrow> fs_node" where
  "set_mode mode (File m c) = File mode c"
| "set_mode mode (Dir es) = Dir (map (\<lambda>e. (fst e, set_mode mode (snd e))) es)"

text \<open>
  The calls on path strings. The root of the tree cannot be removed or replaced, and a
  path that leaves the tree names nothing.
\<close>

definition outside_tree :: "string \<Rightarrow> bool" where
  "outside_tree p = (p = [] \<or> ''..'' \<in> set (path_elems p))"

definition os_RemoveAll :: "fs_node \<Rightarrow> string \<Rightarrow> error + fs_node" where
  "os_RemoveAll fs p =
     (if outside_tree p then Inr fs
      else if path_elems p = [] then Inl InvalidArgument
      else Inr (fs_remove fs (path_elems p)))"

definition os_MkdirAll :: "fs_node \<Rightarrow> string \<Rightarrow> error + fs_node" where
  "os_MkdirAll fs p = (if outside_tree p then Inl NotExist else fs_mkdir_all fs (path_elems p))"

text \<open>
  Modelled from the spec: \<^verbatim>\<open>core.RecursiveCopyFile(from, to, mode, link)\<close> copies the file
  or the directory tree at \<^verbatim>\<open>from\<close> to \<^verbatim>\<open>to\<close>, as real copies or as hard links, and the
  files it creates have the given mode (0555 for a binary target, 0444 otherwise, in both
  directions). The tree has no inodes, so a hard link and a copy are both a file with the
  content of the original. Both callers remove the destination first.
\<close>

definition RecursiveCopyFile :: "fs_node \<Rightarrow> string \<Rightarrow> string \<Rightarrow> nat \<Rightarrow> bool \<Rightarrow> error + fs_node" where
  "RecursiveCopyFile fs src dst mode link =
     (case fs_stat fs src of
        None \<Rightarrow> Inl NotExist
      | Some node \<Rightarrow>
          if outside_tree dst then Inl NotExist
          else fs_put fs (path_elems dst) (set_mode mode node))"

section \<open>dir\_cache.go\<close>

text \<open>
  What the cache takes from outside the two source files: the repository root
  (\<^verbatim>\<open>core.RepoRoot\<close>), the artifacts of a target (\<^verbatim>\<open>cacheArtifacts\<close>, in the order in which
  the channel yields them), and the name of the key directory, which is the padded
  base64 encoding of the collapsed hash
  (\<^verbatim>\<open>base64.URLEncoding.EncodeToString(core.CollapseHash(key))\<close>).
\<close>

record cache_api =
  RepoRoot :: string
  cacheArtifacts :: "build_target \<Rightarrow> string list"
  EncodeKey :: "nat list \<Rightarrow> string"

record dirCache =
  CacheDir :: string

text \<open>\<^verbatim>\<open>fileMode\<close> (lines 140-146): 0555 is 365 and 0444 is 292.\<close>

definition fileMode :: "build_target \<Rightarrow> nat" where
  "fileMode target = (if IsBinary target then 365 else 292)"

text \<open>\<^verbatim>\<open>getPath\<close> (lines 106-109).\<close>

definition getPath :: "cache_api \<Rightarrow> dirCache \<Rightarrow> build_target \<Rightarrow> nat list \<Rightarrow> string" where
  "getPath env cache target key =
     path_Join [CacheDir cache, PackageName (Label target), Name (Label target),
                EncodeKey env key]"

text \<open>
  \<^verbatim>\<open>StoreExtra\<close> (lines 31-52). Every failure is logged and swallowed: the function
  returns nothing, and the model returns the file system as the call leaves it.
\<close>

definition StoreExtra ::
  "core_api \<Rightarrow> cache_api \<Rightarrow> dirCache \<Rightarrow> build_target \<Rightarrow> nat list \<Rightarrow> string \<Rightarrow> fs_node \<Rightarrow> fs_node"
  where
  "StoreExtra core env cache target key out fs =
     (let cacheDir = getPath env cache target key;
          dir = path_Dir out
      in case (if dir \<noteq> ''.'' then os_MkdirAll fs (path_Join [cacheDir, dir]) else Inr fs) of
           Inl err \<Rightarrow> fs
         | Inr fs1 \<Rightarrow>
             let outFile = path_Join [RepoRoot env, OutDir core target, out];
                 cachedFile = path_Join [cacheDir, out]
             in (case os_RemoveAll fs1 cachedFile of
                   Inl err \<Rightarrow> fs1
                 | Inr fs2 \<Rightarrow>
                     (case os_MkdirAll fs2 cacheDir of
                        Inl err \<Rightarrow> fs2
                      | Inr fs3 \<Rightarrow>
                          (case RecursiveCopyFile fs3 outFile cachedFile (fileMode target) False of
                             Inl err \<Rightarrow> fs3
                           | Inr fs4 \<Rightarrow> fs4))))"

text \<open>\<^verbatim>\<open>Store\<close> (lines 19-29).\<close>

definition Store ::
  "core_api \<Rightarrow> cache_api \<Rightarrow> dirCache \<Rightarrow> build_target \<Rightarrow> nat list \<Rightarrow> fs_node \<Rightarrow> fs_node" where
  "Store core env cache target key fs =
     (case os_RemoveAll fs (getPath env cache target key) of
        Inl err \<Rightarrow> fs
      | Inr fs1 \<Rightarrow>
          foldl (\<lambda>fs' out. StoreExtra core env cache target key out fs') fs1
            (cacheArtifacts env target))"

text \<open>\<^verbatim>\<open>RetrieveExtra\<close> (lines 68-97): the truth value it returns, and the file system.\<close>

definition RetrieveExtra ::
  "core_api \<Rightarrow> cache_api \<Rightarrow> dirCache \<Rightarrow> build_target \<Rightarrow> nat list \<Rightarrow> string \<Rightarrow> fs_node
     \<Rightarrow> bool \<times> fs_node" where
  "RetrieveExtra core env cache target key out fs =
     (let outDir = path_Join [RepoRoot env, OutDir core target];
          cacheDir = getPath env cache target key;
          cachedOut = path_Join [cacheDir, out];
          realOut = path_Join [outDir, out]
      in if \<not> PathExists fs cachedOut then (False, fs)
         else
           let dir = path_Dir realOut
           in (case (if dir \<noteq> ''.'' then os_MkdirAll fs dir else Inr fs) of
                 Inl err \<Rightarrow> (False, fs)
               | Inr fs1 \<Rightarrow>
                   (case os_RemoveAll fs1 realOut of
                      Inl err \<Rightarrow> (False, fs1)
                    | Inr fs2 \<Rightarrow>
                        (case RecursiveCopyFile fs2 cachedOut realOut (fileMode target) True of
                           Inl err \<Rightarrow> (False, fs2)
                         | Inr fs3 \<Rightarrow> (True, fs3)))))"

text \<open>\<^verbatim>\<open>Retrieve\<close> (lines 54-66): the loop ends at the first artifact that is missed.\<close>

fun Retrieve_loop ::
  "core_api \<Rightarrow> cache_api \<Rightarrow> dirCache \<Rightarrow> build_target \<Rightarrow> nat list \<Rightarrow> string list \<Rightarrow> fs_node
     \<Rightarrow> bool \<times> fs_node" where
  "Retrieve_loop core env cache target key [] fs = (True, fs)"
| "Retrieve_loop core env cache target key (out # outs) fs =
     (case RetrieveExtra core env cache target key out fs of
        (False, fs') \<Rightarrow> (False, fs')
      | (True, fs') \<Rightarrow> Retrieve_loop core env cache target key outs fs')"

definition Retrieve ::
  "core_api \<Rightarrow> cache_api \<Rightarrow> dirCache \<Rightarrow> build_target \<Rightarrow> nat list \<Rightarrow> fs_node \<Rightarrow> bool \<times> fs_node"
  where
  "Retrieve core env cache target key fs =
     (if \<not> PathExists fs (getPath env cache target key) then (False, fs)
      else Retrieve_loop core env cache target key (cacheArtifacts env target) fs)"

text \<open>\<^verbatim>\<open>Clean\<close> (lines 99-104).\<close>

definition Clean :: "dirCache \<Rightarrow> build_target \<Rightarrow> fs_node \<Rightarrow> fs_node" where
  "Clean cache target fs =
     (case os_RemoveAll fs (path_Join [CacheDir cache, PackageName (Label target),
                                      Name (Label target)]) of
        Inl err \<Rightarrow> fs
      | Inr fs' \<Rightarrow> fs')"

section \<open>Notions used in the statements about the cache\<close>

text \<open>What a path names, without what lies below it: a file with its mode and content, or a directory.\<close>

datatype node_kind = FileK nat string | DirK

fun kind_of :: "fs_node \<Rightarrow> node_kind" where
  "kind_of (File m c) = FileK m c"
| "kind_of (Dir es) = DirK"

definition fs_kind :: "fs_node \<Rightarrow> string list \<Rightarrow> node_kind option" where
  "fs_kind t q = map_option kind_of (fs_lookup t q)"

fun kind_set_mode :: "nat \<Rightarrow> node_kind \<Rightarrow> node_kind" where
  "kind_set_mode mode (FileK m c) = FileK mode c"
| "kind_set_mode mode DirK = DirK"

text \<open>
  A clean path, rooted or not, written from its elements; the relative path without
  elements is \<^verbatim>\<open>.\<close>.
\<close>

definition render :: "bool \<Rightarrow> string list \<Rightarrow> string" where
  "render rooted es =
     (if rooted then CHR ''/'' # join_slash es else if es = [] then ''.'' else join_slash es)"

text \<open>
  Every file of the second file system has the given mode, or is a file of the first one
  with the same mode and content: what was created or changed has the mode.
\<close>

definition keeps_or_sets_mode :: "nat \<Rightarrow> fs_node \<Rightarrow> fs_node \<Rightarrow> bool" where
  "keeps_or_sets_mode mode fs fs' =
     (\<forall>q m c. fs_kind fs' q = Some (FileK m c) \<longrightarrow> m = mode \<or> fs_kind fs q = Some (FileK m c))"

text \<open>Every file at or below a path has the given mode.\<close>

definition files_have_mode :: "nat \<Rightarrow> fs_node \<Rightarrow> string list \<Rightarrow> bool" where
  "files_have_mode mode fs p = (\<forall>r m c. fs_kind fs (p @ r) = Some (FileK m c) \<longrightarrow> m = mode)"

text \<open>
  The node at \<open>dst\<close> in the second file system is there, and it is the node at \<open>src\<close> in
  the first one with the mode set on every file: the same directories, and the same
  files with the same content.
\<close>

definition copied_with_mode ::
  "nat \<Rightarrow> fs_node \<Rightarrow> string list \<Rightarrow> fs_node \<Rightarrow> string list \<Rightarrow> bool" where
  "copied_with_mode mode fs src fs' dst =
     (fs_kind fs' dst \<noteq> None
      \<and> (\<forall>r. fs_kind fs' (dst @ r) = map_option (kind_set_mode mode) (fs_kind fs (src @ r))))"

text \<open>
  The paths of the cache are clean: the cache directory and the repository root are
  clean paths (rooted or not), the package name and the output directory of the target
  are clean relative paths, and the target name and the encoded key are proper path
  elements. \<open>cdir\<close> and \<open>odir\<close> are then the elements of the key directory and of the
  output directory.
\<close>

definition cache_layout ::
  "core_api \<Rightarrow> cache_api \<Rightarrow> dirCache \<Rightarrow> build_target \<Rightarrow> nat list
     \<Rightarrow> bool \<Rightarrow> string list \<Rightarrow> bool \<Rightarrow> string list \<Rightarrow> bool" where
  "cache_layout core env cache target key rc cdir ro odir =
     (\<exists>cs rs. list_all proper_elem cs \<and> CacheDir cache = render rc cs
        \<and> clean_relative (PackageName (Label target))
        \<and> proper_elem (Name (Label target)) \<and> proper_elem (EncodeKey env key)
        \<and> cdir = cs @ path_elems (PackageName (Label target))
                 @ [Name (Label target), EncodeKey env key]
        \<and> list_all proper_elem rs \<and> RepoRoot env = render ro rs
        \<and> clean_relative (OutDir core target)
        \<and> odir = rs @ path_elems (OutDir core target))"

text \<open>An artifact is named by a clean relative path that is not empty.\<close>

definition clean_artifact :: "string \<Rightarrow> bool" where
  "clean_artifact out = (clean_relative out \<and> out \<noteq> [])"

text \<open>
  The steps of \<^verbatim>\<open>StoreExtra\<close> and of \<^verbatim>\<open>RetrieveExtra\<close> on the elements of the paths: of the
  key directory, of the output directory, and of the artifact.
\<close>

definition store_steps ::
  "nat \<Rightarrow> string list \<Rightarrow> string list \<Rightarrow> string list \<Rightarrow> fs_node \<Rightarrow> fs_node" where
  "store_steps mode cdir odir elems fs =
     (case (if butlast elems = [] then Inr fs else fs_mkdir_all fs (cdir @ butlast elems)) of
        Inl err \<Rightarrow> fs
      | Inr fs1 \<Rightarrow>
          (case fs_mkdir_all (fs_remove fs1 (cdir @ elems)) cdir of
             Inl err \<Rightarrow> fs_remove fs1 (cdir @ elems)
           | Inr fs3 \<Rightarrow>
               (case fs_lookup fs3 (odir @ elems) of
                  None \<Rightarrow> fs3
                | Some node \<Rightarrow>
                    (case fs_put fs3 (cdir @ elems) (set_mode mode node) of
                       Inl err \<Rightarrow> fs3
                     | Inr fs4 \<Rightarrow> fs4))))"

definition retrieve_steps ::
  "nat \<Rightarrow> string list \<Rightarrow> string list \<Rightarrow> string list \<Rightarrow> fs_node \<Rightarrow> bool \<times> fs_node" where
  "retrieve_steps mode cdir odir elems fs =
     (if fs_lookup fs (cdir @ elems) = None then (False, fs)
      else
        (case fs_mkdir_all fs (odir @ butlast elems) of
           Inl err \<Rightarrow> (False, fs)
         | Inr fs1 \<Rightarrow>
             (case fs_lookup (fs_remove fs1 (odir @ elems)) (cdir @ elems) of
                None \<Rightarrow> (False, fs_remove fs1 (odir @ elems))
              | Some node \<Rightarrow>
                  (case fs_put (fs_remove fs1 (odir @ elems)) (odir @ elems) (set_mode mode node) of
                     Inl err \<Rightarrow> (False, fs_remove fs1 (odir @ elems))
                   | Inr fs3 \<Rightarrow> (True, fs3)))))"

text \<open>No file stands at a prefix of the path, so that its directories can be made.\<close>

definition dirs_free :: "fs_node \<Rightarrow> string list \<Rightarrow> bool" where
  "dirs_free fs p =
     list_all (\<lambda>q. fs_kind fs q = None \<or> fs_kind fs q = Some DirK) (prefixes p)"

text \<open>The output directory is empty: it is absent, or a directory without entries.\<close>

definition out_dir_empty :: "fs_node \<Rightarrow> string list \<Rightarrow> bool" where
  "out_dir_empty fs odir =
     (dirs_free fs odir \<and>
      (case fs_lookup fs odir of Some (Dir es) \<Rightarrow> es = [] | Some (File m c) \<Rightarrow> True
       | None \<Rightarrow> True))"

text \<open>
  What a successful copy of one artifact from under \<open>src\<close> to under \<open>dst\<close> does to the kinds:
  the artifact is below \<open>dst\<close> as it was below \<open>src\<close>, with the mode set, the directories
  down to it exist, and all the rest is as before.
\<close>

definition transferred ::
  "nat \<Rightarrow> string list \<Rightarrow> string list \<Rightarrow> string list
     \<Rightarrow> (string list \<Rightarrow> node_kind option) \<Rightarrow> (string list \<Rightarrow> node_kind option) \<Rightarrow> bool" where
  "transferred mode src dst elems k k' =
     (\<forall>q. k' q =
        (if prefix (dst @ elems) q
         then map_option (kind_set_mode mode) (k (src @ drop (length dst) q))
         else if prefix q (dst @ butlast elems) then Some DirK else k q))"

text \<open>
  The invariant of the loops of \<^verbatim>\<open>Store\<close> and \<^verbatim>\<open>Retrieve\<close>, with \<open>ref\<close> the kinds below \<open>src\<close>
  before the loop and \<open>seen\<close> the artifacts copied so far: what is below \<open>src\<close> has not
  changed, what is below \<open>dst\<close> is as below \<open>src\<close> with the mode set, the artifacts copied
  are there in full, nothing else is below \<open>dst\<close>, and no file stands at a prefix of \<open>dst\<close>.
\<close>

definition mirror_inv ::
  "nat \<Rightarrow> string list \<Rightarrow> string list \<Rightarrow> (string list \<Rightarrow> node_kind option)
     \<Rightarrow> string list set \<Rightarrow> (string list \<Rightarrow> node_kind option) \<Rightarrow> bool" where
  "mirror_inv mode src dst ref seen k =
     ((\<forall>r. k (src @ r) = ref r)
      \<and> (\<forall>r. r \<noteq> [] \<longrightarrow>
            k (dst @ r) = None \<or> k (dst @ r) = map_option (kind_set_mode mode) (ref r))
      \<and> (\<forall>a\<in>seen. \<forall>r. k (dst @ a @ r) = map_option (kind_set_mode mode) (ref (a @ r)))
      \<and> (\<forall>r. k (dst @ r) \<noteq> None \<longrightarrow> r = [] \<or> (\<exists>a\<in>seen. prefix a r \<or> prefix r a))
      \<and> (\<forall>q. prefix q dst \<longrightarrow> k q = None \<or> k q = Some DirK))"


section \<open>Example data\<close>

text \<open>A stand-in for package \<^verbatim>\<open>core\<close>, and a world with one package and two targets.\<close>

definition example_core :: core_api where
  "example_core =
     \<lparr>ParseBuildFileLabel = (\<lambda>s p. Inr (NewBuildLabel p s, [])),
      ParseBuildLabel = (\<lambda>s p. Inr (NewBuildLabel p s)),
      GraphAddDependency = (\<lambda>g a b. Inr g),
      CanSee = (\<lambda>a b. True),
      OutDir = (\<lambda>t. ''plz-out/gen/'' @ PackageName (Label t))\<rparr>"

definition example_package :: package where
  "example_package =
     \<lparr>PkgName = ''pkg'', Targets = [''lib'' \<mapsto> 0, ''done'' \<mapsto> 1], PkgOutputs = Map.empty\<rparr>"

definition example_world :: world where
  "example_world =
     \<lparr>Heap = [0 \<mapsto> NewBuildTarget (NewBuildLabel ''pkg'' ''lib'')\<lparr>State := Building\<rparr>,
              1 \<mapsto> NewBuildTarget (NewBuildLabel ''pkg'' ''done'')\<lparr>State := Built\<rparr>],
      NextAddr = 2,
      Packages = [0 \<mapsto> example_package],
      Graph = \<lparr>GraphTargets = Map.empty, GraphPackages = {}\<rparr>,
      Deferred = [],
      IsPackageMemo = Map.empty\<rparr>"

text \<open>
  A source tree: package \<^verbatim>\<open>a\<close>, package \<^verbatim>\<open>a/b\<close> inside it with a plain directory \<^verbatim>\<open>x\<close>, and
  package \<^verbatim>\<open>a/b/sub\<close>.
\<close>

definition example_fs :: fs_node where
  "example_fs =
     Dir [(''a'', Dir [(''BUILD'', File 420 []),
                       (''b'', Dir [(''BUILD'', File 420 []),
                                    (''main.go'', File 420 ''package b''),
                                    (''x'', Dir [(''y.go'', File 420 ''package x'')]),
                                    (''sub'', Dir [(''BUILD'', File 420 []),
                                                   (''z.go'', File 420 ''package sub'')])])])]"

text \<open>
  A world for \<^verbatim>\<open>subinclude\<close>: package \<^verbatim>\<open>pkg\<close> is registered in the graph with four targets:
  two without outputs, one still building with one output, and one built with one output.
\<close>

definition subinclude_world :: world where
  "subinclude_world =
     \<lparr>Heap = [0 \<mapsto> NewBuildTarget (NewBuildLabel ''pkg'' ''lib'')\<lparr>State := Building\<rparr>,
              1 \<mapsto> NewBuildTarget (NewBuildLabel ''pkg'' ''done'')\<lparr>State := Built\<rparr>,
              2 \<mapsto> NewBuildTarget (NewBuildLabel ''pkg'' ''gen'')
                     \<lparr>State := Building, Outputs := [''gen.build_defs'']\<rparr>,
              3 \<mapsto> NewBuildTarget (NewBuildLabel ''pkg'' ''rules'')
                     \<lparr>State := Built, Outputs := [''rules.build_defs'']\<rparr>],
      NextAddr = 4,
      Packages = [0 \<mapsto> example_package],
      Graph = \<lparr>GraphTargets = [NewBuildLabel ''pkg'' ''lib'' \<mapsto> 0,
                               NewBuildLabel ''pkg'' ''done'' \<mapsto> 1,
                               NewBuildLabel ''pkg'' ''gen'' \<mapsto> 2,
                               NewBuildLabel ''pkg'' ''rules'' \<mapsto> 3],
               GraphPackages = {''pkg''}\<rparr>,
      Deferred = [],
      IsPackageMemo = Map.empty\<rparr>"








text \<open>
  Scenario 6 of the specification: package \<^verbatim>\<open>p\<close> with \<^verbatim>\<open>main.go\<close> and a nested package
  \<^verbatim>\<open>p/sub\<close> with \<^verbatim>\<open>inner.go\<close>; and a matcher that knows the two patterns of the scenario.
\<close>

definition glob_fs :: fs_node where
  "glob_fs =
     Dir [(''p'', Dir [(''BUILD'', File 420 []),
                       (''main.go'', File 420 ''package p''),
                       (''lib'', Dir [(''util.go'', File 420 ''package lib'')]),
                       (''sub'', Dir [(''BUILD'', File 420 []),
                                      (''inner.go'', File 420 ''package sub'')])])]"

definition example_matcher :: match_api where
  "example_matcher =
     \<lparr>RegexpCompile = (\<lambda>re. if re = ''.*/[^/]*.go'' then
                               Some (\<lambda>name. strings_Contains name ''/'' \<and> suffix ''.go'' name)
                             else None),
      FilepathMatch = (\<lambda>pattern name. Inr (pattern = name))\<rparr>"

text \<open>
  A repository at \<^verbatim>\<open>/repo\<close> with its cache in \<^verbatim>\<open>/repo/.plz-cache\<close>: the target \<^verbatim>\<open>//pkg:lib\<close> has
  built a file and a directory into \<^verbatim>\<open>/repo/plz-out/gen/pkg\<close>; the target \<^verbatim>\<open>//pkg:phony\<close>
  has no outputs.
\<close>

definition cache_env :: cache_api where
  "cache_env = \<lparr>RepoRoot = ''/repo'', cacheArtifacts = Outputs, EncodeKey = (\<lambda>key. ''a2V5'')\<rparr>"

definition example_cache :: dirCache where
  "example_cache = \<lparr>CacheDir = ''/repo/.plz-cache''\<rparr>"

definition cache_target :: build_target where
  "cache_target =
     (NewBuildTarget (NewBuildLabel ''pkg'' ''lib''))\<lparr>Outputs := [''lib.a'', ''include/lib.h'']\<rparr>"


definition built_fs :: fs_node where
  "built_fs =
     Dir [(''repo'', Dir [(''plz-out'', Dir [(''gen'', Dir [(''pkg'',
       Dir [(''lib.a'', File 420 ''ar''),
            (''include'', Dir [(''lib.h'', File 420 ''h'')])])])])])]"

definition key_dir :: "string list" where
  "key_dir = [''repo'', ''.plz-cache'', ''pkg'', ''lib'', ''a2V5'']"

definition out_dir :: "string list" where
  "out_dir = [''repo'', ''plz-out'', ''gen'', ''pkg'']"

text \<open>The file system after \<^verbatim>\<open>//pkg:lib\<close> was stored and its output directory deleted.\<close>

definition stored_fs :: fs_node where
  "stored_fs =
     fs_remove (Store example_core cache_env example_cache cache_target [1, 2, 3] built_fs)
       out_dir"


section \<open>Post-build callbacks and built targets\<close>

lemma getTargetPost_Inr:
  "getTargetPost cPackage name w = Inr a \<Longrightarrow>
     \<exists>pkg t. Packages w cPackage = Some pkg \<and> Targets pkg name = Some a \<and> Heap w a = Some t
       \<and> state_rank (State t) < state_rank Built"
  by (auto simp: getTargetPost_def split: option.splits if_splits)

lemma run_post_call_refused:
  "getTargetPost cPackage (post_call_target c) w = Inl e \<Longrightarrow>
     run_post_call core cPackage c w = (Inl e, w)"
  by (cases c) (simp_all add: AddDependency_def AddOutputPost_def AddLicencePost_def SetCommand_def)

lemma run_post_call_Inr:
  "fst (run_post_call core cPackage c w) = Inr u \<Longrightarrow>
     \<exists>a. getTargetPost cPackage (post_call_target c) w = Inr a"
  by (cases c; cases "getTargetPost cPackage (post_call_target c) w")
     (simp_all add: AddDependency_def AddOutputPost_def AddLicencePost_def SetCommand_def)

text \<open>
  Claim C4. Each of the four post-build callbacks that write to a target
  (\<^verbatim>\<open>AddDependency\<close>, \<^verbatim>\<open>AddOutputPost\<close>, \<^verbatim>\<open>AddLicencePost\<close>, \<^verbatim>\<open>SetCommand\<close>) panics with
  UnknownTarget when the package has no target of the given name, and with
  ImmutableBuiltTarget when the target's state is Built or later; in both cases the
  world is left as it was. A call that returns normally was made on a target that is in
  the package and whose state is below Built.
\<close>

theorem post_build_mutation_guarded:
  "(Packages w cPackage = Some pkg \<and> Targets pkg (post_call_target c) = None \<longrightarrow>
      run_post_call core cPackage c w = (Inl UnknownTarget, w))
   \<and> (Packages w cPackage = Some pkg \<and> Targets pkg (post_call_target c) = Some a
        \<and> Heap w a = Some t \<and> state_rank (State t) \<ge> state_rank Built \<longrightarrow>
      run_post_call core cPackage c w = (Inl ImmutableBuiltTarget, w))
   \<and> (fst (run_post_call core cPackage c w) = Inr () \<longrightarrow>
        (\<exists>pkg a t. Packages w cPackage = Some pkg \<and> Targets pkg (post_call_target c) = Some a
           \<and> Heap w a = Some t \<and> state_rank (State t) < state_rank Built))"
proof (intro conjI impI)
  assume "Packages w cPackage = Some pkg \<and> Targets pkg (post_call_target c) = None"
  then have "getTargetPost cPackage (post_call_target c) w = Inl UnknownTarget"
    by (simp add: getTargetPost_def)
  then show "run_post_call core cPackage c w = (Inl UnknownTarget, w)"
    by (rule run_post_call_refused)
next
  assume "Packages w cPackage = Some pkg \<and> Targets pkg (post_call_target c) = Some a
        \<and> Heap w a = Some t \<and> state_rank (State t) \<ge> state_rank Built"
  then have "getTargetPost cPackage (post_call_target c) w = Inl ImmutableBuiltTarget"
    by (simp add: getTargetPost_def)
  then show "run_post_call core cPackage c w = (Inl ImmutableBuiltTarget, w)"
    by (rule run_post_call_refused)
next
  assume "fst (run_post_call core cPackage c w) = Inr ()"
  then obtain a where "getTargetPost cPackage (post_call_target c) w = Inr a"
    using run_post_call_Inr by blast
  then show "\<exists>pkg a t. Packages w cPackage = Some pkg
           \<and> Targets pkg (post_call_target c) = Some a
           \<and> Heap w a = Some t \<and> state_rank (State t) < state_rank Built"
    using getTargetPost_Inr by blast
qed

theorem post_build_mutation_guarded_witness:
  "(Packages example_world 0 = Some example_package
     \<and> Targets example_package ''gone'' = None
     \<and> run_post_call example_core 0 (CallSetCommand ''gone'' ''true'') example_world
         = (Inl UnknownTarget, example_world))
   \<and> (Targets example_package ''done'' = Some 1
     \<and> Heap example_world 1
         = Some (NewBuildTarget (NewBuildLabel ''pkg'' ''done'')\<lparr>State := Built\<rparr>)
     \<and> run_post_call example_core 0 (CallAddOutputPost ''done'' ''x.txt'') example_world
         = (Inl ImmutableBuiltTarget, example_world))
   \<and> (fst (run_post_call example_core 0 (CallAddLicencePost ''lib'' ''MIT'') example_world)
         = Inr ()
     \<and> Targets example_package ''lib'' = Some 0
     \<and> Heap example_world 0
         = Some (NewBuildTarget (NewBuildLabel ''pkg'' ''lib'')\<lparr>State := Building\<rparr>))"
  using post_build_mutation_guarded [of example_world 0 example_package
      "CallSetCommand ''gone'' ''true''" example_core]
    post_build_mutation_guarded [of example_world 0 example_package
      "CallAddOutputPost ''done'' ''x.txt''" example_core 1
      "NewBuildTarget (NewBuildLabel ''pkg'' ''done'')\<lparr>State := Built\<rparr>"]
  by (simp add: example_world_def example_package_def AddLicencePost_def getTargetPost_def
      NewBuildTarget_def)

section \<open>Creating a target\<close>

lemma AddLabel_fields [simp]:
  "TestCommand (AddLabel t l) = TestCommand t" "IsTest (AddLabel t l) = IsTest t"
  "Command (AddLabel t l) = Command t" "IsBinary (AddLabel t l) = IsBinary t"
  "Label (AddLabel t l) = Label t" "State (AddLabel t l) = State t"
  by (simp_all add: AddLabel_def)

lemma addTarget_duplicate:
  "Packages w p = Some pkg \<Longrightarrow> Targets pkg n \<noteq> None \<Longrightarrow>
   addTarget p n cmd testCmd binary test ntd oic cont nto sc tonly fl bt tt bd w
     = (Inl DuplicateTarget, w)"
  by (simp add: addTarget_def Let_def)

lemma addTarget_test_command_not_test:
  "Packages w p = Some pkg \<Longrightarrow> Targets pkg n = None \<Longrightarrow> testCmd \<noteq> [] \<Longrightarrow> \<not> test \<Longrightarrow>
   addTarget p n cmd testCmd binary test ntd oic cont nto sc tonly fl bt tt bd w
     = (Inl TestCommandButNotTest, w)"
  by (simp add: addTarget_def Let_def)

lemma addTarget_test_without_command:
  "Packages w p = Some pkg \<Longrightarrow> Targets pkg n = None \<Longrightarrow> test \<Longrightarrow> testCmd = [] \<Longrightarrow>
   addTarget p n cmd testCmd binary test ntd oic cont nto sc tonly fl bt tt bd w
     = (Inl TestWithoutTestCommand, w)"
  by (simp add: addTarget_def Let_def)

lemma addTarget_registers:
  assumes "Packages w p = Some pkg" "Targets pkg n = None" "(testCmd \<noteq> []) = test"
  shows "\<exists>t. Packages (snd (addTarget p n cmd testCmd binary test ntd oic cont nto sc tonly
                  fl bt tt bd w)) p
           = Some (pkg\<lparr>Targets := (Targets pkg)(n \<mapsto> NextAddr w)\<rparr>)
         \<and> Heap (snd (addTarget p n cmd testCmd binary test ntd oic cont nto sc tonly
                  fl bt tt bd w)) (NextAddr w) = Some t
         \<and> Label t = NewBuildLabel (PkgName pkg) n \<and> State t = Inactive
         \<and> Command t = cmd \<and> TestCommand t = testCmd \<and> IsTest t = test \<and> IsBinary t = binary
         \<and> fst (addTarget p n cmd testCmd binary test ntd oic cont nto sc tonly fl bt tt bd w)
             \<in> {Inr (NextAddr w), Inl DuplicateGraphTarget}"
  using assms
  by (auto simp add: addTarget_def Let_def Graph_AddTarget_def NewBuildTarget_def
      split: option.splits)

text \<open>
  Claim C5. For a package \<open>pkg\<close> (at address \<open>p\<close>) and a target name \<open>n\<close>: \<^verbatim>\<open>addTarget\<close>
  panics with DuplicateTarget when \<open>pkg\<close> already has a target named \<open>n\<close>; with a name
  that is free it panics when the test command is not empty and the target is not a
  test, and when the target is a test and the test command is empty; a panic leaves the
  world as it was. In every other case the new target, with the given label, commands and
  flags and in state Inactive, is stored and registered in \<open>pkg\<close> under \<open>n\<close>; the call then
  returns its address, unless the graph, which already holds the package, rejects the
  label as a duplicate.
\<close>

theorem addTarget_validation:
  assumes "Packages w p = Some pkg"
  shows
   "(Targets pkg n \<noteq> None \<longrightarrow>
       addTarget p n cmd testCmd binary test ntd oic cont nto sc tonly fl bt tt bd w
         = (Inl DuplicateTarget, w))
    \<and> (Targets pkg n = None \<and> testCmd \<noteq> [] \<and> \<not> test \<longrightarrow>
       addTarget p n cmd testCmd binary test ntd oic cont nto sc tonly fl bt tt bd w
         = (Inl TestCommandButNotTest, w))
    \<and> (Targets pkg n = None \<and> test \<and> testCmd = [] \<longrightarrow>
       addTarget p n cmd testCmd binary test ntd oic cont nto sc tonly fl bt tt bd w
         = (Inl TestWithoutTestCommand, w))
    \<and> (Targets pkg n = None \<and> (testCmd \<noteq> []) = test \<longrightarrow>
       (\<exists>t. Packages (snd (addTarget p n cmd testCmd binary test ntd oic cont nto sc tonly
                  fl bt tt bd w)) p
              = Some (pkg\<lparr>Targets := (Targets pkg)(n \<mapsto> NextAddr w)\<rparr>)
          \<and> Heap (snd (addTarget p n cmd testCmd binary test ntd oic cont nto sc tonly
                  fl bt tt bd w)) (NextAddr w) = Some t
          \<and> Label t = NewBuildLabel (PkgName pkg) n \<and> State t = Inactive
          \<and> Command t = cmd \<and> TestCommand t = testCmd \<and> IsTest t = test
          \<and> IsBinary t = binary
          \<and> fst (addTarget p n cmd testCmd binary test ntd oic cont nto sc tonly
                  fl bt tt bd w) \<in> {Inr (NextAddr w), Inl DuplicateGraphTarget}))"
proof (intro conjI impI)
  assume "Targets pkg n \<noteq> None"
  then show "addTarget p n cmd testCmd binary test ntd oic cont nto sc tonly fl bt tt bd w
         = (Inl DuplicateTarget, w)"
    by (rule addTarget_duplicate [OF assms])
next
  assume "Targets pkg n = None \<and> testCmd \<noteq> [] \<and> \<not> test"
  then show "addTarget p n cmd testCmd binary test ntd oic cont nto sc tonly fl bt tt bd w
         = (Inl TestCommandButNotTest, w)"
    by (simp add: addTarget_test_command_not_test [OF assms])
next
  assume "Targets pkg n = None \<and> test \<and> testCmd = []"
  then show "addTarget p n cmd testCmd binary test ntd oic cont nto sc tonly fl bt tt bd w
         = (Inl TestWithoutTestCommand, w)"
    by (simp add: addTarget_test_without_command [OF assms])
next
  assume "Targets pkg n = None \<and> (testCmd \<noteq> []) = test"
  then have "Targets pkg n = None" and "(testCmd \<noteq> []) = test"
    by simp_all
  then show "\<exists>t. Packages (snd (addTarget p n cmd testCmd binary test ntd oic cont nto sc tonly
                  fl bt tt bd w)) p
              = Some (pkg\<lparr>Targets := (Targets pkg)(n \<mapsto> NextAddr w)\<rparr>)
          \<and> Heap (snd (addTarget p n cmd testCmd binary test ntd oic cont nto sc tonly
                  fl bt tt bd w)) (NextAddr w) = Some t
          \<and> Label t = NewBuildLabel (PkgName pkg) n \<and> State t = Inactive
          \<and> Command t = cmd \<and> TestCommand t = testCmd \<and> IsTest t = test
          \<and> IsBinary t = binary
          \<and> fst (addTarget p n cmd testCmd binary test ntd oic cont nto sc tonly
                  fl bt tt bd w) \<in> {Inr (NextAddr w), Inl DuplicateGraphTarget}"
    by (rule addTarget_registers [OF assms])
qed

theorem addTarget_validation_witness:
  "Packages example_world 0 = Some example_package
   \<and> Targets example_package ''lib'' \<noteq> None
   \<and> addTarget 0 ''lib'' ''make'' [] False False False False False False False False 0 0 0 []
        example_world = (Inl DuplicateTarget, example_world)
   \<and> Targets example_package ''new'' = None
   \<and> addTarget 0 ''new'' ''make'' ''run'' False False False False False False False False 0 0 0 []
        example_world = (Inl TestCommandButNotTest, example_world)
   \<and> addTarget 0 ''new'' ''make'' [] False True False False False False False False 0 0 0 []
        example_world = (Inl TestWithoutTestCommand, example_world)
   \<and> (\<exists>t. Packages (snd (addTarget 0 ''new'' ''make'' ''run'' True True False False False False
                  False False 0 0 0 [] example_world)) 0
              = Some (example_package\<lparr>Targets := (Targets example_package)(''new'' \<mapsto> 2)\<rparr>)
          \<and> Heap (snd (addTarget 0 ''new'' ''make'' ''run'' True True False False False False
                  False False 0 0 0 [] example_world)) 2 = Some t
          \<and> Label t = NewBuildLabel ''pkg'' ''new'' \<and> Command t = ''make''
          \<and> TestCommand t = ''run'' \<and> IsTest t \<and> IsBinary t)"
proof -
  have pkg: "Packages example_world 0 = Some example_package"
    by (simp add: example_world_def)
  have next_addr: "NextAddr example_world = 2" "PkgName example_package = ''pkg''"
    by (simp_all add: example_world_def example_package_def)
  have old: "Targets example_package ''lib'' \<noteq> None"
    and new: "Targets example_package ''new'' = None"
    by (simp_all add: example_package_def)
  show ?thesis
    using pkg old new
      addTarget_validation [OF pkg, of "''lib''" "''make''" "[]" False False]
      addTarget_validation [OF pkg, of "''new''" "''make''" "''run''" False False]
      addTarget_validation [OF pkg, of "''new''" "''make''" "[]" False True]
      addTarget_validation [OF pkg, of "''new''" "''make''" "''run''" True True
        False False False False False False 0 0 0 "[]"]
    unfolding next_addr
    by auto
qed

section \<open>Exported dependencies\<close>

lemma update_target_twice:
  "update_target a g (update_target a f w) = update_target a (\<lambda>t. g (f t)) w"
  by (simp add: update_target_def split: option.splits)

lemma exported_included_update:
  assumes "exported_included w"
    and "\<And>t. ExportedDependencies t \<subseteq> DeclaredDependencies t \<Longrightarrow>
              ExportedDependencies (f t) \<subseteq> DeclaredDependencies (f t)"
  shows "exported_included (update_target a f w)"
  using assms unfolding exported_included_def update_target_def
  by (auto split: option.splits if_splits)

lemma exported_included_Graph [simp]:
  "exported_included (w\<lparr>Graph := g\<rparr>) = exported_included w"
  by (simp add: exported_included_def)

lemma exported_included_AddDep:
  "exported_included w \<Longrightarrow> exported_included (snd (AddDep core cTarget cDep w))"
  by (auto simp: AddDep_def target_AddDependency_def split: option.splits sum.splits
           intro!: exported_included_update)

lemma exported_included_AddExportedDep:
  "exported_included w \<Longrightarrow> exported_included (snd (AddExportedDep core cTarget cDep w))"
  by (auto simp: AddExportedDep_def update_target_twice target_AddDependency_def
                 target_AddExportedDependency_def
           split: option.splits sum.splits intro!: exported_included_update)

lemma exported_included_AddDependency:
  "exported_included w \<Longrightarrow>
     exported_included (snd (AddDependency core cPackage cTarget cDep exported w))"
  by (auto simp: AddDependency_def update_target_twice target_AddDependency_def
                 target_AddExportedDependency_def Let_def
           split: option.splits sum.splits intro!: exported_included_update)

lemma exported_included_run_dep_call:
  "exported_included w \<Longrightarrow> exported_included (snd (run_dep_call core c w))"
  by (cases c)
     (simp_all add: exported_included_AddDep exported_included_AddExportedDep
                    exported_included_AddDependency)

lemma example_world_included: "exported_included example_world"
  by (simp add: exported_included_def example_world_def NewBuildTarget_def)

text \<open>
  Claim C9. When the exported dependencies of every target are among its dependencies,
  they still are after any sequence of calls of \<^verbatim>\<open>AddDep\<close>, \<^verbatim>\<open>AddExportedDep\<close> and
  \<^verbatim>\<open>AddDependency\<close> (with the exported flag set or not), on any targets and with any
  arguments, whether the sequence runs to its end or stops at a panic. A new target has
  no exported dependency, so the invariant holds from its creation.
\<close>

theorem exported_dependencies_included:
  "exported_included w \<Longrightarrow> exported_included (snd (run_dep_calls core cs w))"
proof (induction cs arbitrary: w)
  case Nil
  then show ?case by simp
next
  case (Cons c cs)
  obtain r w' where step: "run_dep_call core c w = (r, w')"
    by (cases "run_dep_call core c w")
  with Cons.prems have inv: "exported_included w'"
    using exported_included_run_dep_call [of w core c] by simp
  show ?case
  proof (cases r)
    case (Inl e)
    with step inv show ?thesis by simp
  next
    case (Inr u)
    with step Cons.IH [OF inv] show ?thesis by simp
  qed
qed

theorem exported_dependencies_included_witness:
  "exported_included example_world \<and>
   exported_included (snd (run_dep_calls example_core
      [DepAddExportedDep 0 ''a'', DepAddDependency 0 ''lib'' ''b'' True, DepAddDep 0 ''c'']
      example_world)) \<and>
   map_option ExportedDependencies (Heap (snd (run_dep_calls example_core
      [DepAddExportedDep 0 ''a'', DepAddDependency 0 ''lib'' ''b'' True, DepAddDep 0 ''c'']
      example_world)) 0) = Some {NewBuildLabel ''pkg'' ''a'', NewBuildLabel ''pkg'' ''b''}"
proof -
  have run: "map_option ExportedDependencies (Heap (snd (run_dep_calls example_core
      [DepAddExportedDep 0 ''a'', DepAddDependency 0 ''lib'' ''b'' True, DepAddDep 0 ''c'']
      example_world)) 0) = Some {NewBuildLabel ''pkg'' ''a'', NewBuildLabel ''pkg'' ''b''}"
    by (simp add: example_world_def example_package_def example_core_def AddExportedDep_def
        AddDependency_def AddDep_def update_target_def getTargetPost_def NewBuildTarget_def
        target_AddDependency_def target_AddExportedDependency_def NewBuildLabel_def
        insert_commute)
  show ?thesis
    using exported_dependencies_included [OF example_world_included, of example_core
      "[DepAddExportedDep 0 ''a'', DepAddDependency 0 ''lib'' ''b'' True, DepAddDep 0 ''c'']"]
      example_world_included run
    by blast
qed

section \<open>Paths\<close>

lemma split_slash_no_slash: "CHR ''/'' \<notin> set e \<Longrightarrow> split_slash e = [e]"
  by (induction e) auto

lemma split_slash_not_Nil [simp]: "split_slash s \<noteq> []"
  by (induction s) (auto split: list.splits)

lemma split_slash_append:
  "split_slash (a @ CHR ''/'' # b) = split_slash a @ split_slash b"
proof (induction a)
  case Nil
  then show ?case by simp
next
  case (Cons c a)
  obtain w ws where "split_slash a = w # ws"
    by (cases "split_slash a") simp_all
  with Cons show ?case by simp
qed

lemma split_slash_join:
  "es \<noteq> [] \<Longrightarrow> \<forall>e\<in>set es. CHR ''/'' \<notin> set e \<Longrightarrow> split_slash (join_slash es) = es"
proof (induction es rule: join_slash.induct)
  case 1
  then show ?case by simp
next
  case (2 e)
  then show ?case by (simp add: split_slash_no_slash)
next
  case (3 e f es)
  then show ?case by (simp add: split_slash_append split_slash_no_slash)
qed

lemma clean_step_proper: "proper_elem e \<Longrightarrow> clean_step r acc e = acc @ [e]"
  by (simp add: clean_step_def proper_elem_def)

lemma foldl_clean_step_proper:
  "list_all proper_elem es \<Longrightarrow> foldl (clean_step r) acc es = acc @ es"
  by (induction es arbitrary: acc) (simp_all add: clean_step_proper)

lemma join_slash_not_rooted:
  assumes "list_all proper_elem es"
  shows "\<not> path_rooted (join_slash es)"
proof (cases es)
  case Nil
  then show ?thesis by (simp add: path_rooted_def)
next
  case (Cons e fs)
  then obtain c cs where e: "e = c # cs" "c \<noteq> CHR ''/''"
    using assms by (cases e) (auto simp: proper_elem_def)
  then show ?thesis
    using Cons by (cases fs) (simp_all add: path_rooted_def)
qed

lemma join_slash_eq_Nil: "list_all proper_elem es \<Longrightarrow> (join_slash es = []) = (es = [])"
  by (induction es rule: join_slash.induct) (auto simp: proper_elem_def)

lemma path_elems_join:
  assumes "list_all proper_elem es"
  shows "path_elems (join_slash es) = es"
proof (cases "es = []")
  case True
  then show ?thesis by (simp add: path_elems_def path_rooted_def clean_step_def)
next
  case False
  have "\<forall>e\<in>set es. CHR ''/'' \<notin> set e"
    using assms by (auto simp: list_all_iff proper_elem_def)
  with False have "split_slash (join_slash es) = es"
    by (rule split_slash_join)
  then show ?thesis
    using assms by (simp add: path_elems_def foldl_clean_step_proper)
qed

lemma path_Clean_join:
  "list_all proper_elem es \<Longrightarrow> es \<noteq> [] \<Longrightarrow> path_Clean (join_slash es) = join_slash es"
  by (simp add: path_Clean_def path_elems_join join_slash_not_rooted join_slash_eq_Nil)

lemma join_slash_inj:
  "list_all proper_elem es \<Longrightarrow> list_all proper_elem fs \<Longrightarrow> join_slash es = join_slash fs \<Longrightarrow> es = fs"
  by (metis path_elems_join)

lemma join_slash_snoc:
  "es \<noteq> [] \<Longrightarrow> join_slash (es @ [e]) = join_slash es @ CHR ''/'' # e"
  by (induction es rule: join_slash.induct) auto

lemma join_slash_append:
  "es \<noteq> [] \<Longrightarrow> fs \<noteq> [] \<Longrightarrow> join_slash (es @ fs) = join_slash es @ CHR ''/'' # join_slash fs"
  by (induction es rule: join_slash.induct) (auto, (cases fs; simp)+)


lemma path_Split_join_snoc:
  assumes "es \<noteq> []" "CHR ''/'' \<notin> set e"
  shows "fst (path_Split (join_slash (es @ [e]))) = join_slash es @ ''/''"
proof -
  have "dropWhile (\<lambda>c. c \<noteq> CHR ''/'') (rev e @ CHR ''/'' # rev (join_slash es))
          = CHR ''/'' # rev (join_slash es)"
    using assms(2) by (subst dropWhile_append2) auto
  then show ?thesis
    using assms(1) by (simp add: path_Split_def join_slash_snoc)
qed

lemma path_Split_single:
  "CHR ''/'' \<notin> set e \<Longrightarrow> fst (path_Split e) = []"
  by (auto simp: path_Split_def dropWhile_eq_Nil_conv)

lemma path_rooted_append: "s \<noteq> [] \<Longrightarrow> path_rooted (s @ t) = path_rooted s"
  by (cases s) (simp_all add: path_rooted_def)

lemma path_Clean_trailing_slash:
  assumes "list_all proper_elem es" "es \<noteq> []"
  shows "path_Clean (join_slash es @ ''/'') = join_slash es"
proof -
  have ne: "join_slash es \<noteq> []"
    using assms by (simp add: join_slash_eq_Nil)
  have slash: "\<forall>e\<in>set es. CHR ''/'' \<notin> set e"
    using assms(1) by (auto simp: list_all_iff proper_elem_def)
  have "split_slash (join_slash es @ ''/'') = es @ [[]]"
    using split_slash_append [of "join_slash es" "[]"] split_slash_join [OF assms(2) slash]
    by simp
  moreover have "\<not> path_rooted (join_slash es @ ''/'')"
    using ne assms(1) by (simp add: path_rooted_append join_slash_not_rooted)
  ultimately have "path_elems (join_slash es @ ''/'') = es"
    using assms(1) by (simp add: path_elems_def foldl_clean_step_proper clean_step_def)
  then show ?thesis
    using assms(2) ne \<open>\<not> path_rooted (join_slash es @ ''/'')\<close>
    by (simp add: path_Clean_def)
qed

lemma path_Dir_join_snoc:
  assumes "list_all proper_elem es" "proper_elem e"
  shows "path_Dir (join_slash (es @ [e])) = (if es = [] then ''.'' else join_slash es)"
proof (cases "es = []")
  case True
  then show ?thesis
    using assms(2) by (simp add: path_Dir_def path_Split_single proper_elem_def path_Clean_def)
next
  case False
  have "CHR ''/'' \<notin> set e"
    using assms(2) by (simp add: proper_elem_def)
  then show ?thesis
    using False assms(1)
    by (simp add: path_Dir_def path_Split_join_snoc path_Clean_trailing_slash)
qed

lemma dotdot_stays_step:
  "''..'' \<in> set acc \<Longrightarrow> ''..'' \<in> set (clean_step False acc e)"
proof -
  assume a: "''..'' \<in> set acc"
  have "last acc \<noteq> ''..'' \<Longrightarrow> ''..'' \<in> set (butlast acc)"
    using a by (induction acc) (auto split: if_splits)
  then show ?thesis
    using a by (auto simp: clean_step_def)
qed

lemma dotdot_stays:
  "''..'' \<in> set acc \<Longrightarrow> ''..'' \<in> set (foldl (clean_step False) acc xs)"
  by (induction xs arbitrary: acc) (simp_all add: dotdot_stays_step)

lemma foldl_clean_step_prefix:
  assumes "''..'' \<notin> set (foldl (clean_step False) acc xs)"
  shows "foldl (clean_step False) (ps @ acc) xs = ps @ foldl (clean_step False) acc xs"
  using assms
proof (induction xs arbitrary: acc)
  case Nil
  then show ?case by simp
next
  case (Cons x xs)
  have no: "''..'' \<notin> set (clean_step False acc x)"
    using Cons.prems dotdot_stays [of "clean_step False acc x" xs] by auto
  have step: "clean_step False (ps @ acc) x = ps @ clean_step False acc x"
  proof (cases "x = ''..'' \<and> \<not> (acc \<noteq> [] \<and> last acc \<noteq> ''..'')")
    case True
    then have "clean_step False acc x = acc @ [''..'']"
      by (auto simp: clean_step_def)
    with no show ?thesis by simp
  next
    case False
    then show ?thesis
      by (auto simp: clean_step_def butlast_append)
  qed
  show ?case
    using Cons.IH [of "clean_step False acc x"] Cons.prems step by simp
qed

lemma set_foldl_clean_step:
  "e \<in> set (foldl (clean_step r) acc xs) \<Longrightarrow>
     e \<in> set acc \<or> (e \<in> set xs \<and> e \<noteq> [] \<and> e \<noteq> ''.'')"
proof (induction xs arbitrary: acc)
  case Nil
  then show ?case by simp
next
  case (Cons x xs)
  from Cons.IH [OF Cons.prems [simplified]]
  show ?case
    by (auto simp: clean_step_def split: if_splits dest: in_set_butlastD)
qed

lemma split_slash_elems: "e \<in> set (split_slash s) \<Longrightarrow> CHR ''/'' \<notin> set e"
proof (induction s arbitrary: e)
  case Nil
  then show ?case by simp
next
  case (Cons c s)
  obtain w ws where ws: "split_slash s = w # ws"
    by (cases "split_slash s") simp_all
  with Cons show ?case
    by (auto split: if_splits)
qed

lemma path_elems_proper:
  "''..'' \<notin> set (path_elems s) \<Longrightarrow> list_all proper_elem (path_elems s)"
  unfolding list_all_iff path_elems_def proper_elem_def
  using set_foldl_clean_step [of _ "path_rooted s" "[]" "split_slash s"] split_slash_elems
  by fastforce

lemma path_Join_clean:
  assumes ps: "list_all proper_elem ps"
    and s: "s \<noteq> []" "\<not> path_rooted s" "path_elems s \<noteq> []" "''..'' \<notin> set (path_elems s)"
  shows "path_Join [join_slash ps, s] = join_slash (ps @ path_elems s)"
proof (cases "ps = []")
  case True
  then show ?thesis
    using s by (simp add: path_Join_def path_Clean_def)
next
  case False
  let ?p = "join_slash ps"
  have ne: "?p \<noteq> []"
    using ps False by (simp add: join_slash_eq_Nil)
  have slash: "\<forall>e\<in>set ps. CHR ''/'' \<notin> set e"
    using ps by (auto simp: list_all_iff proper_elem_def)
  have nr: "\<not> path_rooted (?p @ CHR ''/'' # s)"
    using ne ps by (simp add: path_rooted_append join_slash_not_rooted)
  have "split_slash (?p @ CHR ''/'' # s) = ps @ split_slash s"
    using split_slash_append [of ?p s] split_slash_join [OF False slash] by simp
  then have "path_elems (?p @ CHR ''/'' # s) = foldl (clean_step False) (ps @ []) (split_slash s)"
    using nr ps by (simp add: path_elems_def foldl_clean_step_proper)
  also have "\<dots> = ps @ path_elems s"
    using s(2,4) foldl_clean_step_prefix [of "[]" "split_slash s" ps]
    by (simp add: path_elems_def)
  finally have "path_elems (?p @ CHR ''/'' # s) = ps @ path_elems s" .
  then show ?thesis
    using ne nr False by (simp add: path_Join_def path_Clean_def)
qed

lemma isPackage_consistent:
  assumes "memo_consistent fs bfn memo"
  shows "fst (isPackage fs bfn d memo) = isPackageInternal fs bfn d"
    and "memo_consistent fs bfn (snd (isPackage fs bfn d memo))"
  using assms
  by (auto simp: isPackage_def memo_consistent_def Let_def split: option.splits)

lemma path_elems_dot: "path_elems ''.'' = []"
  by (simp add: path_elems_def path_rooted_def clean_step_def)

lemma join_slash_not_dot:
  "list_all proper_elem es \<Longrightarrow> es \<noteq> [] \<Longrightarrow> join_slash es \<noteq> ''.''"
  using path_elems_join path_elems_dot by metis

lemma parseSource_loop_walk:
  assumes "list_all proper_elem ps" "list_all proper_elem es" "memo_consistent fs bfn memo"
  shows "map_option fst (parseSource_loop fs bfn (join_slash ps) (join_slash (ps @ es)) memo)
    = Some (if \<exists>k. 0 < k \<and> k \<le> length es \<and> isPackageInternal fs bfn (join_slash (ps @ take k es))
            then Inl CrossPackageFile else Inr ())"
  using assms(2,3)
proof (induction es arbitrary: memo rule: rev_induct)
  case Nil
  then show ?case
    by (subst parseSource_loop.simps) simp
next
  case (snoc e es)
  let ?dir = "join_slash (ps @ es @ [e])"
  let ?memo = "snd (isPackage fs bfn ?dir memo)"
  have proper: "list_all proper_elem (ps @ es @ [e])" "list_all proper_elem (ps @ es)"
    "list_all proper_elem es" "proper_elem e"
    using assms(1) snoc.prems(1) by simp_all
  have ne: "?dir \<noteq> join_slash ps"
    using join_slash_inj [OF proper(1) assms(1)] by auto
  have nd: "?dir \<noteq> ''.''"
    using join_slash_not_dot [OF proper(1)] by simp
  have pk: "fst (isPackage fs bfn ?dir memo) = isPackageInternal fs bfn ?dir"
    and mc: "memo_consistent fs bfn ?memo"
    using isPackage_consistent [OF snoc.prems(2)] by simp_all
  have dir: "path_Dir ?dir = (if ps @ es = [] then ''.'' else join_slash (ps @ es))"
    using path_Dir_join_snoc [OF proper(2,4)] by simp
  show ?case
  proof (cases "isPackageInternal fs bfn ?dir")
    case True
    then have "\<exists>k. 0 < k \<and> k \<le> length (es @ [e])
        \<and> isPackageInternal fs bfn (join_slash (ps @ take k (es @ [e])))"
      by (intro exI [of _ "length (es @ [e])"]) simp
    then show ?thesis
      using True ne nd pk by (subst parseSource_loop.simps) simp
  next
    case False
    have split: "(\<exists>k. 0 < k \<and> k \<le> length (es @ [e])
          \<and> isPackageInternal fs bfn (join_slash (ps @ take k (es @ [e]))))
       = (\<exists>k. 0 < k \<and> k \<le> length es \<and> isPackageInternal fs bfn (join_slash (ps @ take k es)))"
      (is "?L = ?R")
    proof
      assume ?L
      then obtain k where k: "0 < k" "k \<le> length (es @ [e])"
        "isPackageInternal fs bfn (join_slash (ps @ take k (es @ [e])))"
        by blast
      with False have "k \<le> length es"
        by (cases "k = Suc (length es)") auto
      with k show ?R by auto
    next
      assume ?R
      then show ?L by auto
    qed
    have rec: "map_option fst (parseSource_loop fs bfn (join_slash ps) (path_Dir ?dir) ?memo)
       = Some (if \<exists>k. 0 < k \<and> k \<le> length es
                    \<and> isPackageInternal fs bfn (join_slash (ps @ take k es))
               then Inl CrossPackageFile else Inr ())"
    proof (cases "ps @ es = []")
      case True
      then show ?thesis
        using dir by (subst parseSource_loop.simps) simp
    next
      case False
      with dir have "path_Dir ?dir = join_slash (ps @ es)"
        by simp
      then show ?thesis
        using snoc.IH [OF proper(3) mc] by simp
    qed
    show ?thesis
      using False ne nd pk rec split
      by (subst parseSource_loop.simps) simp
  qed
qed

section \<open>Classifying a source\<close>

lemma memo_consistent_empty: "memo_consistent fs bfn Map.empty"
  by (simp add: memo_consistent_def)

lemma dirs_between_clean:
  assumes p: "clean_relative p"
    and s: "s \<noteq> []" "\<not> path_rooted s" "path_elems s \<noteq> []" "''..'' \<notin> set (path_elems s)"
  shows "list_ex P (dirs_between p s)
     = (\<exists>k. 0 < k \<and> k < length (path_elems s)
          \<and> P (join_slash (path_elems p @ take k (path_elems s))))"
proof -
  let ?ps = "path_elems p" and ?ss = "path_elems s"
  have ps: "list_all proper_elem ?ps" and pj: "p = join_slash ?ps"
    using p by (simp_all add: clean_relative_def)
  have ss: "list_all proper_elem ?ss"
    using s(4) by (rule path_elems_proper)
  have "path_Join [p, s] = join_slash (?ps @ ?ss)"
    using path_Join_clean [OF ps s] pj by simp
  moreover have "path_elems (join_slash (?ps @ ?ss)) = ?ps @ ?ss"
    using ps ss by (simp add: path_elems_join)
  ultimately have db: "dirs_between p s
      = map (\<lambda>k. join_slash (take k (?ps @ ?ss))) [Suc (length ?ps) ..< length ?ps + length ?ss]"
    by (simp add: dirs_between_def Let_def)
  show ?thesis
  proof
    assume "list_ex P (dirs_between p s)"
    then obtain k where k: "Suc (length ?ps) \<le> k" "k < length ?ps + length ?ss"
      "P (join_slash (take k (?ps @ ?ss)))"
      unfolding db by (auto simp: list_ex_iff)
    then have "0 < k - length ?ps \<and> k - length ?ps < length ?ss
       \<and> P (join_slash (?ps @ take (k - length ?ps) ?ss))"
      by simp
    then show "\<exists>k. 0 < k \<and> k < length ?ss \<and> P (join_slash (?ps @ take k ?ss))"
      by blast
  next
    assume "\<exists>k. 0 < k \<and> k < length ?ss \<and> P (join_slash (?ps @ take k ?ss))"
    then obtain k where k: "0 < k" "k < length ?ss" "P (join_slash (?ps @ take k ?ss))"
      by blast
    then have "length ?ps + k \<in> set [Suc (length ?ps) ..< length ?ps + length ?ss]"
      and "P (join_slash (take (length ?ps + k) (?ps @ ?ss)))"
      by simp_all
    then show "list_ex P (dirs_between p s)"
      unfolding db list_ex_iff by (metis (no_types, lifting) imageI set_map)
  qed
qed

lemma parseSource_file_branch:
  assumes "\<not> LooksLikeABuildLabel s" "\<not> strings_Contains s ''../''" "s \<noteq> []" "\<not> path_rooted s"
    "strings_Contains s ''/''"
    and "map_option fst (parseSource_loop fs bfn p (path_Dir (path_Join [p, s])) memo) = Some r"
  shows "map_option fst (parseSource core fs bfn s p memo)
     = Some (case r of Inl e \<Rightarrow> Inl e | Inr u \<Rightarrow> Inr (FileLabel s p))"
proof -
  have "hd s \<noteq> CHR ''/''"
    using assms(3,4) by (cases s) (simp_all add: path_rooted_def)
  then show ?thesis
    using assms by (auto simp: parseSource_def split: option.splits sum.splits)
qed

lemma parseSource_walks_between:
  assumes label: "\<not> LooksLikeABuildLabel s" "\<not> strings_Contains s ''../''"
    and s: "s \<noteq> []" "\<not> path_rooted s" "path_elems s \<noteq> []" "''..'' \<notin> set (path_elems s)"
    and slash: "strings_Contains s ''/''"
    and p: "clean_relative p"
    and memo: "memo_consistent fs bfn memo"
  shows "map_option fst (parseSource core fs bfn s p memo)
     = Some (if list_ex (isPackageInternal fs bfn) (dirs_between p s) then Inl CrossPackageFile
             else Inr (FileLabel s p))"
proof -
  let ?ps = "path_elems p" and ?ss = "path_elems s"
  have ps: "list_all proper_elem ?ps" and pj: "p = join_slash ?ps"
    using p by (simp_all add: clean_relative_def)
  have ss: "list_all proper_elem ?ss"
    using s(4) by (rule path_elems_proper)
  have bl: "list_all proper_elem (butlast ?ss)" "proper_elem (last ?ss)"
    using ss s(3) by (auto simp: list_all_iff dest: in_set_butlastD)
  have join: "path_Join [p, s] = join_slash ((?ps @ butlast ?ss) @ [last ?ss])"
    using path_Join_clean [OF ps s] pj s(3) by simp
  have dir: "path_Dir (path_Join [p, s])
      = (if ?ps @ butlast ?ss = [] then ''.'' else join_slash (?ps @ butlast ?ss))"
    unfolding join using ps bl by (intro path_Dir_join_snoc) simp_all
  have ex: "(\<exists>k. 0 < k \<and> k \<le> length (butlast ?ss)
               \<and> isPackageInternal fs bfn (join_slash (?ps @ take k (butlast ?ss))))
          = list_ex (isPackageInternal fs bfn) (dirs_between p s)"
    unfolding dirs_between_clean [OF p s]
    by (intro ex_cong1) (auto simp: take_butlast)
  have loop: "map_option fst (parseSource_loop fs bfn p (path_Dir (path_Join [p, s])) memo)
      = Some (if list_ex (isPackageInternal fs bfn) (dirs_between p s)
              then Inl CrossPackageFile else Inr ())"
  proof (cases "?ps @ butlast ?ss = []")
    case True
    then have "\<not> list_ex (isPackageInternal fs bfn) (dirs_between p s)"
      using ex by simp
    then show ?thesis
      using dir True by (subst parseSource_loop.simps) simp
  next
    case False
    then have "path_Dir (path_Join [p, s]) = join_slash (?ps @ butlast ?ss)"
      using dir by simp
    then show ?thesis
      using parseSource_loop_walk [OF ps bl(1) memo] pj ex by simp
  qed
  show ?thesis
    using parseSource_file_branch [OF label s(1,2) slash loop, of core]
    by (cases "list_ex (isPackageInternal fs bfn) (dirs_between p s)") simp_all
qed

lemma parseSource_loop_results:
  assumes "parseSource_loop fs bfn pn dir memo = Some r"
  shows "fst r = Inl CrossPackageFile \<or> fst r = Inr ()"
  by (rule parseSource_loop.raw_induct
        [where P = "\<lambda>fs bfn pn dir memo r. fst r = Inl CrossPackageFile \<or> fst r = Inr ()",
         OF _ assms])
     (auto split: if_splits)

text \<open>
  Claim C3, as amended. \<^verbatim>\<open>parseSource\<close> classifies a source string \<open>s\<close> for a package \<open>p\<close>
  in this order. A string that starts with \<^verbatim>\<open>//\<close> or a colon is parsed as a build label,
  with a file when the parser gives one. Otherwise a string that contains \<^verbatim>\<open>../\<close> is
  rejected as InvalidPath; otherwise one that begins with a slash is rejected as
  AbsolutePath; otherwise a non-empty string without a slash is returned as a file of
  \<open>p\<close>. Otherwise, when \<open>p\<close> is a clean relative path, \<open>s\<close> cleans to at least one element and
  none of them is \<^verbatim>\<open>..\<close>, and the memo agrees with the file system, the call fails with
  CrossPackageFile exactly when one of the directories strictly between \<open>p\<close> and the file is
  a package, and returns \<open>s\<close> as a file of \<open>p\<close> otherwise.
\<close>

theorem parseSource_classification:
  "(LooksLikeABuildLabel s \<longrightarrow>
      parseSource core fs bfn s p memo
        = Some (case ParseBuildFileLabel core s p of
                  Inl e \<Rightarrow> Inl e
                | Inr (l, f) \<Rightarrow> Inr (if f \<noteq> [] then BuildFileLabel l f else BuildLabelInput l),
                memo))
   \<and> (\<not> LooksLikeABuildLabel s \<and> strings_Contains s ''../'' \<longrightarrow>
      parseSource core fs bfn s p memo = Some (Inl InvalidPath, memo))
   \<and> (\<not> LooksLikeABuildLabel s \<and> \<not> strings_Contains s ''../'' \<and> path_rooted s \<longrightarrow>
      parseSource core fs bfn s p memo = Some (Inl AbsolutePath, memo))
   \<and> (\<not> LooksLikeABuildLabel s \<and> \<not> strings_Contains s ''../'' \<and> s \<noteq> [] \<and> \<not> path_rooted s
        \<and> \<not> strings_Contains s ''/'' \<longrightarrow>
      parseSource core fs bfn s p memo = Some (Inr (FileLabel s p), memo))
   \<and> (\<not> LooksLikeABuildLabel s \<and> \<not> strings_Contains s ''../'' \<and> s \<noteq> [] \<and> \<not> path_rooted s
        \<and> strings_Contains s ''/'' \<and> path_elems s \<noteq> [] \<and> ''..'' \<notin> set (path_elems s)
        \<and> clean_relative p \<and> memo_consistent fs bfn memo \<longrightarrow>
      map_option fst (parseSource core fs bfn s p memo)
        = Some (if list_ex (isPackageInternal fs bfn) (dirs_between p s)
                then Inl CrossPackageFile else Inr (FileLabel s p)))"
proof (intro conjI impI)
  assume "LooksLikeABuildLabel s"
  then show "parseSource core fs bfn s p memo
        = Some (case ParseBuildFileLabel core s p of
                  Inl e \<Rightarrow> Inl e
                | Inr (l, f) \<Rightarrow> Inr (if f \<noteq> [] then BuildFileLabel l f else BuildLabelInput l),
                memo)"
    by (simp add: parseSource_def split: sum.splits)
next
  assume "\<not> LooksLikeABuildLabel s \<and> strings_Contains s ''../''"
  then show "parseSource core fs bfn s p memo = Some (Inl InvalidPath, memo)"
    by (simp add: parseSource_def)
next
  assume a: "\<not> LooksLikeABuildLabel s \<and> \<not> strings_Contains s ''../'' \<and> path_rooted s"
  then have "s \<noteq> []" "hd s = CHR ''/''"
    by (cases s; simp add: path_rooted_def)+
  with a show "parseSource core fs bfn s p memo = Some (Inl AbsolutePath, memo)"
    by (simp add: parseSource_def)
next
  assume a: "\<not> LooksLikeABuildLabel s \<and> \<not> strings_Contains s ''../'' \<and> s \<noteq> []
      \<and> \<not> path_rooted s \<and> \<not> strings_Contains s ''/''"
  then have "hd s \<noteq> CHR ''/''"
    by (cases s) (simp_all add: path_rooted_def)
  with a show "parseSource core fs bfn s p memo = Some (Inr (FileLabel s p), memo)"
    by (simp add: parseSource_def)
next
  assume "\<not> LooksLikeABuildLabel s \<and> \<not> strings_Contains s ''../'' \<and> s \<noteq> [] \<and> \<not> path_rooted s
        \<and> strings_Contains s ''/'' \<and> path_elems s \<noteq> [] \<and> ''..'' \<notin> set (path_elems s)
        \<and> clean_relative p \<and> memo_consistent fs bfn memo"
  then show "map_option fst (parseSource core fs bfn s p memo)
        = Some (if list_ex (isPackageInternal fs bfn) (dirs_between p s)
                then Inl CrossPackageFile else Inr (FileLabel s p))"
    by (intro parseSource_walks_between) simp_all
qed

theorem parseSource_classification_witness:
  "(LooksLikeABuildLabel '':lib''
     \<and> parseSource example_core example_fs [''BUILD''] '':lib'' ''a/b'' Map.empty
         = Some (Inr (BuildLabelInput (NewBuildLabel ''a/b'' '':lib'')), Map.empty))
   \<and> (\<not> LooksLikeABuildLabel ''x/../y.go'' \<and> strings_Contains ''x/../y.go'' ''../''
     \<and> parseSource example_core example_fs [''BUILD''] ''x/../y.go'' ''a/b'' Map.empty
         = Some (Inl InvalidPath, Map.empty))
   \<and> (\<not> LooksLikeABuildLabel ''/etc/passwd'' \<and> \<not> strings_Contains ''/etc/passwd'' ''../''
     \<and> path_rooted ''/etc/passwd''
     \<and> parseSource example_core example_fs [''BUILD''] ''/etc/passwd'' ''a/b'' Map.empty
         = Some (Inl AbsolutePath, Map.empty))
   \<and> (\<not> LooksLikeABuildLabel ''main.go'' \<and> \<not> strings_Contains ''main.go'' ''../''
     \<and> ''main.go'' \<noteq> [] \<and> \<not> path_rooted ''main.go'' \<and> \<not> strings_Contains ''main.go'' ''/''
     \<and> parseSource example_core example_fs [''BUILD''] ''main.go'' ''a/b'' Map.empty
         = Some (Inr (FileLabel ''main.go'' ''a/b''), Map.empty))
   \<and> (clean_relative ''a/b'' \<and> memo_consistent example_fs [''BUILD''] Map.empty
     \<and> path_elems ''x/y.go'' = [''x'', ''y.go'']
     \<and> \<not> isPackageInternal example_fs [''BUILD''] ''a/b/x''
     \<and> map_option fst (parseSource example_core example_fs [''BUILD''] ''x/y.go'' ''a/b''
          Map.empty) = Some (Inr (FileLabel ''x/y.go'' ''a/b''))
     \<and> path_elems ''sub/z.go'' = [''sub'', ''z.go'']
     \<and> isPackageInternal example_fs [''BUILD''] ''a/b/sub''
     \<and> map_option fst (parseSource example_core example_fs [''BUILD''] ''sub/z.go'' ''a/b''
          Map.empty) = Some (Inl CrossPackageFile))"
proof -
  have labels: "LooksLikeABuildLabel '':lib''" "\<not> LooksLikeABuildLabel ''x/../y.go''"
    "\<not> LooksLikeABuildLabel ''/etc/passwd''" "\<not> LooksLikeABuildLabel ''main.go''"
    "\<not> LooksLikeABuildLabel ''x/y.go''" "\<not> LooksLikeABuildLabel ''sub/z.go''"
    by (simp_all add: LooksLikeABuildLabel_def)
  have contains: "strings_Contains ''x/../y.go'' ''../''"
    "\<not> strings_Contains ''/etc/passwd'' ''../''" "\<not> strings_Contains ''main.go'' ''../''"
    "\<not> strings_Contains ''main.go'' ''/''" "\<not> strings_Contains ''x/y.go'' ''../''"
    "strings_Contains ''x/y.go'' ''/''" "\<not> strings_Contains ''sub/z.go'' ''../''"
    "strings_Contains ''sub/z.go'' ''/''"
    by simp_all
  have rooted: "path_rooted ''/etc/passwd''" "\<not> path_rooted ''main.go''"
    "\<not> path_rooted ''x/y.go''" "\<not> path_rooted ''sub/z.go''"
    by (simp_all add: path_rooted_def)
  have elems: "path_elems ''x/y.go'' = [''x'', ''y.go'']"
    "path_elems ''sub/z.go'' = [''sub'', ''z.go'']"
    by code_simp+
  have clean: "clean_relative ''a/b''"
    by code_simp
  have pkgs: "\<not> isPackageInternal example_fs [''BUILD''] ''a/b/x''"
    "isPackageInternal example_fs [''BUILD''] ''a/b/sub''"
    by code_simp+
  have between:
    "\<not> list_ex (isPackageInternal example_fs [''BUILD'']) (dirs_between ''a/b'' ''x/y.go'')"
    "list_ex (isPackageInternal example_fs [''BUILD'']) (dirs_between ''a/b'' ''sub/z.go'')"
    by code_simp+
  have parse: "ParseBuildFileLabel example_core '':lib'' ''a/b''
      = Inr (NewBuildLabel ''a/b'' '':lib'', [])"
    by (simp add: example_core_def)
  note inst = parseSource_classification [where core = example_core and fs = example_fs
      and bfn = "[''BUILD'']" and p = "''a/b''" and memo = Map.empty]
  show ?thesis
    using labels contains rooted elems clean pkgs between parse memo_consistent_empty
      inst [of "'':lib''"] inst [of "''x/../y.go''"] inst [of "''/etc/passwd''"]
      inst [of "''main.go''"] inst [of "''x/y.go''"] inst [of "''sub/z.go''"]
    by simp
qed

text \<open>
  The claim as it is written fails for a source whose elements cancel out: in package
  \<^verbatim>\<open>a/b\<close> the source \<^verbatim>\<open>x/..\<close> is no label, has no \<^verbatim>\<open>../\<close> in it and is not rooted; no
  directory lies between the package and the path it names, and yet the call fails with
  CrossPackageFile, because the loop climbs from \<^verbatim>\<open>a/b\<close> to the package \<^verbatim>\<open>a\<close> above it.
\<close>

theorem parseSource_classification_counterexample:
  "\<not> LooksLikeABuildLabel ''x/..'' \<and> \<not> strings_Contains ''x/..'' ''../''
   \<and> \<not> path_rooted ''x/..'' \<and> strings_Contains ''x/..'' ''/''
   \<and> dirs_between ''a/b'' ''x/..'' = []
   \<and> \<not> isPackageInternal example_fs [''BUILD''] ''a/b/x''
   \<and> map_option fst (parseSource example_core example_fs [''BUILD''] ''x/..'' ''a/b'' Map.empty)
       = Some (Inl CrossPackageFile)"
  by code_simp

section \<open>The empty source string\<close>

lemma add_input_empty:
  "Heap w cTarget \<noteq> None \<Longrightarrow>
     add_input core fs bfn store cTarget [] w = Some (Inl IndexOutOfRange, w)"
  by (auto simp: add_input_def parseSource_def LooksLikeABuildLabel_def)

text \<open>
  Claim C10. On the empty string \<^verbatim>\<open>parseSource\<close> reaches \<^verbatim>\<open>src[0]\<close> and panics with an
  index out of range: the empty string is no label and contains neither \<^verbatim>\<open>../\<close> nor a
  slash. So do its three callers \<^verbatim>\<open>AddSource\<close>, \<^verbatim>\<open>AddNamedSource\<close> and \<^verbatim>\<open>AddData\<close> on a
  valid target, and they leave the world as it was. On a non-empty string that is not a
  label \<^verbatim>\<open>parseSource\<close> never ends in that panic.
\<close>

theorem parseSource_empty_string_panics:
  "parseSource core fs bfn [] p memo = Some (Inl IndexOutOfRange, memo)
   \<and> (Heap w cTarget \<noteq> None \<longrightarrow>
        AddSource core fs bfn cTarget [] w = Some (Inl IndexOutOfRange, w)
        \<and> AddNamedSource core fs bfn cTarget cName [] w = Some (Inl IndexOutOfRange, w)
        \<and> AddData core fs bfn cTarget [] w = Some (Inl IndexOutOfRange, w))
   \<and> (s \<noteq> [] \<and> \<not> LooksLikeABuildLabel s \<longrightarrow>
        (\<forall>r. parseSource core fs bfn s p memo = Some r \<longrightarrow> fst r \<noteq> Inl IndexOutOfRange))"
proof (intro conjI impI allI)
  show "parseSource core fs bfn [] p memo = Some (Inl IndexOutOfRange, memo)"
    by (simp add: parseSource_def LooksLikeABuildLabel_def)
next
  assume "Heap w cTarget \<noteq> None"
  then show "AddSource core fs bfn cTarget [] w = Some (Inl IndexOutOfRange, w)"
    and "AddNamedSource core fs bfn cTarget cName [] w = Some (Inl IndexOutOfRange, w)"
    and "AddData core fs bfn cTarget [] w = Some (Inl IndexOutOfRange, w)"
    by (simp_all add: AddSource_def AddNamedSource_def AddData_def add_input_empty)
next
  fix r
  assume s: "s \<noteq> [] \<and> \<not> LooksLikeABuildLabel s"
    and r: "parseSource core fs bfn s p memo = Some r"
  show "fst r \<noteq> Inl IndexOutOfRange"
  proof (cases "parseSource_loop fs bfn p (path_Dir (path_Join [p, s])) memo")
    case None
    with s r show ?thesis
      by (auto simp: parseSource_def split: if_splits)
  next
    case (Some q)
    from parseSource_loop_results [OF Some] s r Some show ?thesis
      by (cases q; cases "fst q") (auto simp: parseSource_def split: if_splits)
  qed
qed

theorem parseSource_empty_string_panics_witness:
  "Heap example_world 0 \<noteq> None
   \<and> AddSource example_core example_fs [''BUILD''] 0 [] example_world
       = Some (Inl IndexOutOfRange, example_world)
   \<and> AddNamedSource example_core example_fs [''BUILD''] 0 ''srcs'' [] example_world
       = Some (Inl IndexOutOfRange, example_world)
   \<and> AddData example_core example_fs [''BUILD''] 0 [] example_world
       = Some (Inl IndexOutOfRange, example_world)
   \<and> ''main.go'' \<noteq> [] \<and> \<not> LooksLikeABuildLabel ''main.go''
   \<and> parseSource example_core example_fs [''BUILD''] ''main.go'' ''a/b'' Map.empty
       = Some (Inr (FileLabel ''main.go'' ''a/b''), Map.empty)
   \<and> fst (Inr (FileLabel ''main.go'' ''a/b''), Map.empty :: string \<rightharpoonup> bool)
       \<noteq> Inl IndexOutOfRange"
proof -
  have heap: "Heap example_world 0 \<noteq> None"
    by (simp add: example_world_def)
  have parse: "parseSource example_core example_fs [''BUILD''] ''main.go'' ''a/b'' Map.empty
       = Some (Inr (FileLabel ''main.go'' ''a/b''), Map.empty)"
    by (simp add: parseSource_def LooksLikeABuildLabel_def)
  have label: "\<not> LooksLikeABuildLabel ''main.go''"
    by (simp add: LooksLikeABuildLabel_def)
  show ?thesis
    using heap parse label
      parseSource_empty_string_panics [of example_core example_fs "[''BUILD'']" "''a/b''"
        Map.empty example_world 0 "''srcs''" "''main.go''"]
    by simp
qed

section \<open>Subinclude\<close>

lemma GetSubincludeFile_missing:
  assumes "Packages w cPackage = Some pkg" "ParseBuildLabel core cLabel (PkgName pkg) = Inr label"
    "Graph_Target w label = None"
  shows "GetSubincludeFile core cPackage cLabel w
     = (if PackageName label \<notin> GraphPackages (Graph w)
        then (Inr pyDeferParse, w\<lparr>Deferred := Deferred w @ [(label, PkgName pkg)]\<rparr>)
        else (Inl Unsubincludable, w))"
  using assms by (simp add: GetSubincludeFile_def deferParse_def)

lemma GetSubincludeFile_present:
  assumes "Packages w cPackage = Some pkg" "ParseBuildLabel core cLabel (PkgName pkg) = Inr label"
    "Graph_Target w label = Some t"
  shows "GetSubincludeFile core cPackage cLabel w
     = (if \<not> CanSee core (NewBuildTarget \<lparr>PackageName = PkgName pkg, Name = ''all''\<rparr>) t
        then (Inl VisibilityViolation, w)
        else if length (Outputs t) \<noteq> 1 then (Inl MultipleOutputs, w)
        else if state_rank (State t) < state_rank Built
        then (Inr pyDeferParse, w\<lparr>Deferred := Deferred w @ [(label, PkgName pkg)]\<rparr>)
        else (Inr (path_Join [OutDir core t, hd (Outputs t)]), w))"
  using assms by (simp add: GetSubincludeFile_def deferParse_def)

text \<open>
  Claim C2, as amended. For a label that parses, \<^verbatim>\<open>GetSubincludeFile\<close> decides in this
  order. When the target is not in the graph: if its package is not registered either,
  the deferral of the label for the current package is recorded and the sentinel
  \<^verbatim>\<open>_DEFER_\<close> is returned; if the package is registered, the call fails as
  Unsubincludable. When the target is in the graph: if the caller cannot see it, the call
  fails with VisibilityViolation; otherwise, if it does not have exactly one output, the
  call fails with MultipleOutputs, whatever its state; otherwise, if its state is below
  Built, the deferral is recorded and the sentinel is returned; otherwise the path of the
  output under the target's output directory is returned. A failing call and a call that
  returns a path leave the world as it was.
\<close>

theorem GetSubincludeFile_protocol:
  assumes "Packages w cPackage = Some pkg"
    and "ParseBuildLabel core cLabel (PkgName pkg) = Inr label"
  shows
   "(Graph_Target w label = None \<and> PackageName label \<notin> GraphPackages (Graph w) \<longrightarrow>
       GetSubincludeFile core cPackage cLabel w
         = (Inr pyDeferParse, w\<lparr>Deferred := Deferred w @ [(label, PkgName pkg)]\<rparr>))
    \<and> (Graph_Target w label = None \<and> PackageName label \<in> GraphPackages (Graph w) \<longrightarrow>
       GetSubincludeFile core cPackage cLabel w = (Inl Unsubincludable, w))
    \<and> (Graph_Target w label = Some t
         \<and> \<not> CanSee core (NewBuildTarget \<lparr>PackageName = PkgName pkg, Name = ''all''\<rparr>) t \<longrightarrow>
       GetSubincludeFile core cPackage cLabel w = (Inl VisibilityViolation, w))
    \<and> (Graph_Target w label = Some t
         \<and> CanSee core (NewBuildTarget \<lparr>PackageName = PkgName pkg, Name = ''all''\<rparr>) t
         \<and> length (Outputs t) \<noteq> 1 \<longrightarrow>
       GetSubincludeFile core cPackage cLabel w = (Inl MultipleOutputs, w))
    \<and> (Graph_Target w label = Some t
         \<and> CanSee core (NewBuildTarget \<lparr>PackageName = PkgName pkg, Name = ''all''\<rparr>) t
         \<and> Outputs t = [out] \<and> state_rank (State t) < state_rank Built \<longrightarrow>
       GetSubincludeFile core cPackage cLabel w
         = (Inr pyDeferParse, w\<lparr>Deferred := Deferred w @ [(label, PkgName pkg)]\<rparr>))
    \<and> (Graph_Target w label = Some t
         \<and> CanSee core (NewBuildTarget \<lparr>PackageName = PkgName pkg, Name = ''all''\<rparr>) t
         \<and> Outputs t = [out] \<and> state_rank (State t) \<ge> state_rank Built \<longrightarrow>
       GetSubincludeFile core cPackage cLabel w = (Inr (path_Join [OutDir core t, out]), w))"
  using GetSubincludeFile_missing [OF assms] GetSubincludeFile_present [OF assms, of t]
  by simp

lemma sw_pkg: "Packages subinclude_world 0 = Some example_package"
  "Packages example_world 0 = Some example_package" "PkgName example_package = ''pkg''"
  by (simp_all add: subinclude_world_def example_world_def example_package_def)

lemma sw_parse: "ParseBuildLabel example_core s ''pkg'' = Inr (NewBuildLabel ''pkg'' s)"
  "ParseBuildLabel (example_core\<lparr>CanSee := \<lambda>a b. False\<rparr>) s ''pkg'' = Inr (NewBuildLabel ''pkg'' s)"
  by (simp_all add: example_core_def)

lemma sw_targets:
  "Graph_Target example_world (NewBuildLabel ''pkg'' ''lib'') = None"
  "Graph_Target subinclude_world (NewBuildLabel ''pkg'' ''nothing'') = None"
  "Graph_Target subinclude_world (NewBuildLabel ''pkg'' ''lib'')
     = Some (NewBuildTarget (NewBuildLabel ''pkg'' ''lib'')\<lparr>State := Building\<rparr>)"
  "Graph_Target subinclude_world (NewBuildLabel ''pkg'' ''gen'')
     = Some (NewBuildTarget (NewBuildLabel ''pkg'' ''gen'')
               \<lparr>State := Building, Outputs := [''gen.build_defs'']\<rparr>)"
  "Graph_Target subinclude_world (NewBuildLabel ''pkg'' ''rules'')
     = Some (NewBuildTarget (NewBuildLabel ''pkg'' ''rules'')
               \<lparr>State := Built, Outputs := [''rules.build_defs'']\<rparr>)"
  by (simp_all add: Graph_Target_def example_world_def subinclude_world_def NewBuildLabel_def)

theorem GetSubincludeFile_protocol_witness:
  "GetSubincludeFile example_core 0 ''lib'' example_world
     = (Inr pyDeferParse,
        example_world\<lparr>Deferred := Deferred example_world @ [(NewBuildLabel ''pkg'' ''lib'', ''pkg'')]\<rparr>)
   \<and> GetSubincludeFile example_core 0 ''nothing'' subinclude_world
       = (Inl Unsubincludable, subinclude_world)
   \<and> GetSubincludeFile (example_core\<lparr>CanSee := \<lambda>a b. False\<rparr>) 0 ''rules'' subinclude_world
       = (Inl VisibilityViolation, subinclude_world)
   \<and> GetSubincludeFile example_core 0 ''lib'' subinclude_world
       = (Inl MultipleOutputs, subinclude_world)
   \<and> GetSubincludeFile example_core 0 ''gen'' subinclude_world
       = (Inr pyDeferParse,
          subinclude_world\<lparr>Deferred := Deferred subinclude_world
                                          @ [(NewBuildLabel ''pkg'' ''gen'', ''pkg'')]\<rparr>)
   \<and> GetSubincludeFile example_core 0 ''rules'' subinclude_world
       = (Inr ''plz-out/gen/pkg/rules.build_defs'', subinclude_world)"
proof -
  have graphs: "PackageName (NewBuildLabel ''pkg'' ''lib'') \<notin> GraphPackages (Graph example_world)"
    "PackageName (NewBuildLabel ''pkg'' ''nothing'') \<in> GraphPackages (Graph subinclude_world)"
    by (simp_all add: example_world_def subinclude_world_def NewBuildLabel_def)
  have see: "CanSee example_core a b" "\<not> CanSee (example_core\<lparr>CanSee := \<lambda>a b. False\<rparr>) a b" for a b
    by (simp_all add: example_core_def)
  have out: "path_Join [OutDir example_core
      (NewBuildTarget (NewBuildLabel ''pkg'' ''rules'')
         \<lparr>State := Built, Outputs := [''rules.build_defs'']\<rparr>), ''rules.build_defs'']
      = ''plz-out/gen/pkg/rules.build_defs''"
    by code_simp
  show ?thesis
    using graphs see out sw_targets
      GetSubincludeFile_protocol [OF sw_pkg(2), of example_core "''lib''", unfolded sw_pkg(3),
        OF sw_parse(1)]
      GetSubincludeFile_protocol [OF sw_pkg(1), of example_core "''nothing''", unfolded sw_pkg(3),
        OF sw_parse(1)]
      GetSubincludeFile_protocol [OF sw_pkg(1), of "example_core\<lparr>CanSee := \<lambda>a b. False\<rparr>"
        "''rules''", unfolded sw_pkg(3), OF sw_parse(2),
        of "NewBuildTarget (NewBuildLabel ''pkg'' ''rules'')
               \<lparr>State := Built, Outputs := [''rules.build_defs'']\<rparr>"]
      GetSubincludeFile_protocol [OF sw_pkg(1), of example_core "''lib''", unfolded sw_pkg(3),
        OF sw_parse(1),
        of "NewBuildTarget (NewBuildLabel ''pkg'' ''lib'')\<lparr>State := Building\<rparr>"]
      GetSubincludeFile_protocol [OF sw_pkg(1), of example_core "''gen''", unfolded sw_pkg(3),
        OF sw_parse(1),
        of "NewBuildTarget (NewBuildLabel ''pkg'' ''gen'')
               \<lparr>State := Building, Outputs := [''gen.build_defs'']\<rparr>" "''gen.build_defs''"]
      GetSubincludeFile_protocol [OF sw_pkg(1), of example_core "''rules''", unfolded sw_pkg(3),
        OF sw_parse(1),
        of "NewBuildTarget (NewBuildLabel ''pkg'' ''rules'')
               \<lparr>State := Built, Outputs := [''rules.build_defs'']\<rparr>" "''rules.build_defs''"]
    by (simp add: NewBuildTarget_def)
qed

text \<open>
  The claim as it is written fails for a target that is in the graph with a state below
  Built but without exactly one output: target \<^verbatim>\<open>lib\<close> is still building and has no output,
  and the call fails with MultipleOutputs; no deferral is recorded.
\<close>

theorem GetSubincludeFile_protocol_counterexample:
  "Packages subinclude_world 0 = Some example_package
   \<and> ParseBuildLabel example_core ''lib'' (PkgName example_package)
       = Inr (NewBuildLabel ''pkg'' ''lib'')
   \<and> map_option State (Graph_Target subinclude_world (NewBuildLabel ''pkg'' ''lib''))
       = Some Building
   \<and> state_rank Building < state_rank Built
   \<and> GetSubincludeFile example_core 0 ''lib'' subinclude_world
       = (Inl MultipleOutputs, subinclude_world)"
  by (simp add: sw_pkg sw_parse sw_targets GetSubincludeFile_def example_core_def
      NewBuildTarget_def)

section \<open>Labels of a target and its dependencies\<close>

text \<open>
  White space that is not ASCII is cut as well: a no-break space (U+00A0) before the
  suffix and a line separator (U+2028) after it. Bytes that are no encoding stay.
\<close>

lemma strings_TrimSpace_unicode:
  "strings_TrimSpace (CHR 0xC2 # CHR 0xA0 # '' -lm'' @ [CHR 0xE2, CHR 0x80, CHR 0xA8, CHR 0x0A])
     = ''-lm''"
  "strings_TrimSpace '' -l m  '' = ''-l m''"
  "strings_TrimSpace [CHR 0xA0, CHR ''x'', CHR 0xC2] = [CHR 0xA0, CHR ''x'', CHR 0xC2]"
  by code_simp+
















section \<open>Glob and package boundaries\<close>

lemma path_Join_snoc:
  assumes "list_all proper_elem cs" "proper_elem n"
  shows "path_Join [join_slash cs, n] = join_slash (cs @ [n])"
proof -
  have n: "path_elems n = [n]"
    using path_elems_join [of "[n]"] assms(2) by simp
  have "n \<noteq> []" "\<not> path_rooted n"
    using assms(2) join_slash_not_rooted [of "[n]"] by (simp_all add: proper_elem_def)
  then show ?thesis
    using path_Join_clean [OF assms(1), of n] n assms(2) by (auto simp: proper_elem_def)
qed

lemma foldl_invariant:
  assumes "P s" and "\<And>x s. x \<in> set xs \<Longrightarrow> P s \<Longrightarrow> P (f s x)"
  shows "P (foldl f s xs)"
  using assms by (induction xs arbitrary: s) simp_all

lemma map_of_names_proper:
  assumes "fs_names_proper (Dir es)" "map_of es n = Some c"
  shows "proper_elem n" "fs_names_proper c"
  using assms map_of_SomeD [of es n c] by (auto simp: list_all_iff)

lemma walk_glob_invariant:
  assumes rs: "list_all proper_elem rs"
  shows "list_all proper_elem ns \<Longrightarrow> fs_names_proper node \<Longrightarrow> memo_consistent fs bfn (snd s)
     \<Longrightarrow> \<forall>m\<in>set (fst s). reached fs bfn rs m
     \<Longrightarrow> \<forall>k. 0 < k \<and> k < length ns \<longrightarrow> \<not> isPackageInternal fs bfn (join_slash (rs @ take k ns))
     \<Longrightarrow> memo_consistent fs bfn
           (snd (snd (walk (glob_walkFn fs bfn (join_slash rs) regex) (join_slash (rs @ ns)) node s)))
       \<and> (\<forall>m\<in>set (fst (snd (walk (glob_walkFn fs bfn (join_slash rs) regex)
                                (join_slash (rs @ ns)) node s))).
            reached fs bfn rs m)"
proof (induction node arbitrary: ns s)
  case (File mode content)
  have "reached fs bfn rs (join_slash (rs @ ns))"
    unfolding reached_def using File.prems(1,5) by blast
  then show ?case
    using File.prems(3,4)
    by (subst walk.simps, subst (2) walk.simps) (auto simp: glob_walkFn_def)
next
  case (Dir es)
  let ?name = "join_slash (rs @ ns)"
  let ?fn = "glob_walkFn fs bfn (join_slash rs) regex"
  let ?I = "\<lambda>r :: walk_verdict \<times> string list \<times> (string \<rightharpoonup> bool).
      memo_consistent fs bfn (snd (snd r)) \<and> (\<forall>m\<in>set (fst (snd r)). reached fs bfn rs m)"
  have proper: "list_all proper_elem (rs @ ns)"
    using rs Dir.prems(1) by simp
  have root: "(?name \<noteq> join_slash rs) = (ns \<noteq> [])"
    using join_slash_inj [OF proper rs] by auto
  obtain v s1 where fn: "?fn ?name (Some (Dir es)) None s = (v, s1)"
    by (cases "?fn ?name (Some (Dir es)) None s")
  have pk: "fst (isPackage fs bfn ?name (snd s)) = isPackageInternal fs bfn ?name"
    and mc: "memo_consistent fs bfn (snd (isPackage fs bfn ?name (snd s)))"
    using isPackage_consistent [OF Dir.prems(3)] by simp_all
  have s1: "?I (v, s1)" and v: "v = WalkNil \<or> v = WalkSkipDir"
    and open_dir: "v = WalkNil \<Longrightarrow> ns \<noteq> [] \<Longrightarrow> \<not> isPackageInternal fs bfn ?name"
    using fn Dir.prems(3,4) pk mc root
    by (auto simp: glob_walkFn_def split: if_splits)
  show ?case
  proof (cases v)
    case WalkNil
    have anc: "\<forall>k. 0 < k \<and> k < length (ns @ [n])
        \<longrightarrow> \<not> isPackageInternal fs bfn (join_slash (rs @ take k (ns @ [n])))" for n
    proof (intro allI impI)
      fix k assume k: "0 < k \<and> k < length (ns @ [n])"
      show "\<not> isPackageInternal fs bfn (join_slash (rs @ take k (ns @ [n])))"
      proof (cases "k < length ns")
        case True
        with k Dir.prems(5) show ?thesis by simp
      next
        case False
        with k have "k = length ns" "ns \<noteq> []" by auto
        with open_dir [OF WalkNil] show ?thesis by simp
      qed
    qed
    have step: "?I (if fst r \<noteq> WalkNil then r
                    else (case map_of es n of
                            None \<Rightarrow> r
                          | Some child \<Rightarrow>
                              (case walk ?fn (path_Join [?name, n]) child (snd r) of
                                 (WalkSkipDir, s3) \<Rightarrow>
                                   if is_dir child then (WalkNil, s3) else (WalkSkipDir, s3)
                               | r' \<Rightarrow> r')))"
      if n: "n \<in> set (dir_names es)" and r: "?I r" for n r
    proof (cases "fst r \<noteq> WalkNil \<or> map_of es n = None")
      case True
      with r show ?thesis by (auto split: option.splits)
    next
      case False
      then obtain child where child: "map_of es n = Some child" and go: "fst r = WalkNil"
        by auto
      have pn: "proper_elem n" and pc: "fs_names_proper child"
        using map_of_names_proper [OF Dir.prems(2) child] by simp_all
      have join: "path_Join [?name, n] = join_slash (rs @ ns @ [n])"
        using path_Join_snoc [OF proper pn] by simp
      have mem: "(n, child) \<in> set es"
        using child by (rule map_of_SomeD)
      have "?I (walk ?fn (join_slash (rs @ ns @ [n])) child (snd r))"
        using Dir.IH [of "(n, child)" child "ns @ [n]" "snd r"] mem pn pc r anc [of n]
          Dir.prems(1)
        by simp
      then show ?thesis
        using child go join
        by (cases "walk ?fn (join_slash (rs @ ns @ [n])) child (snd r)")
           (auto split: walk_verdict.splits)
    qed
    have "?I (foldl (\<lambda>r name.
                        if fst r \<noteq> WalkNil then r
                        else (case map_of es name of
                                None \<Rightarrow> r
                              | Some child \<Rightarrow>
                                  (case walk ?fn (path_Join [?name, name]) child (snd r) of
                                     (WalkSkipDir, s3) \<Rightarrow>
                                       if is_dir child then (WalkNil, s3) else (WalkSkipDir, s3)
                                   | r' \<Rightarrow> r')))
                     (WalkNil, s1) (dir_names es))"
      using s1 WalkNil step by (intro foldl_invariant [where P = ?I]) simp_all
    then show ?thesis
      using fn WalkNil by (subst walk.simps, subst (2) walk.simps) simp
  next
    case WalkSkipDir
    then show ?thesis
      using fn s1 by (subst walk.simps, subst (2) walk.simps) simp
  next
    case (WalkError e)
    with v show ?thesis by simp
  qed
qed

lemma fs_lookup_names_proper:
  "fs_names_proper t \<Longrightarrow> fs_lookup t ns = Some node \<Longrightarrow> fs_names_proper node"
proof (induction ns arbitrary: t)
  case Nil
  then show ?case by simp
next
  case (Cons n ns)
  then obtain c where c: "fs_child t n = Some c" "fs_lookup c ns = Some node"
    by (auto split: option.splits)
  then obtain es where es: "t = Dir es" "map_of es n = Some c"
    by (cases t) auto
  with Cons.prems(1) have "fs_names_proper c"
    using map_of_names_proper(2) by blast
  with Cons.IH c(2) show ?case by blast
qed

lemma fs_stat_names_proper:
  "fs_names_proper fs \<Longrightarrow> fs_stat fs p = Some node \<Longrightarrow> fs_names_proper node"
  using fs_lookup_names_proper by (auto simp: fs_stat_def split: if_splits)

lemma glob_walk_reached:
  assumes "strings_Contains pattern ''**''" "clean_relative p" "fs_names_proper fs"
    "memo_consistent fs bfn memo"
  shows "memo_consistent fs bfn (snd (glob lib fs bfn p pattern memo))
     \<and> (\<forall>matches. fst (glob lib fs bfn p pattern memo) = Inr matches
           \<longrightarrow> p \<noteq> [] \<and> (\<forall>m\<in>set matches. reached fs bfn (path_elems p) m))"
proof -
  let ?rs = "path_elems p"
  have rs: "list_all proper_elem ?rs" and p: "p = join_slash ?rs"
    using assms(2) by (simp_all add: clean_relative_def)
  let ?p3 = "strings_Replace (strings_Replace (strings_Replace pattern ''*'' ''[^/]*'')
      ''[^/]*[^/]*'' ''.*'') ''/.*/'' ''/(?:.*/)?''"
  show ?thesis
  proof (cases "RegexpCompile lib ?p3")
    case None
    then show ?thesis
      using assms(1,4) by (simp add: glob_def)
  next
    case (Some regex)
    let ?fn = "glob_walkFn fs bfn p regex"
    show ?thesis
    proof (cases "fs_stat fs p")
      case None
      then show ?thesis
        using assms(1,4) Some
        by (simp add: glob_def filepath_Walk_def glob_walkFn_def)
    next
      case (Some node)
      then have ne: "p \<noteq> []"
        by (auto simp: fs_stat_def)
      have node: "fs_names_proper node"
        using fs_stat_names_proper [OF assms(3) Some] .
      have inv: "memo_consistent fs bfn (snd (snd (walk ?fn p node ([], memo))))
          \<and> (\<forall>m\<in>set (fst (snd (walk ?fn p node ([], memo)))). reached fs bfn ?rs m)"
        using walk_glob_invariant [OF rs, of "[]" node fs bfn "([], memo)" regex] node assms(4) p
        by simp
      obtain v ms memo' where w: "walk ?fn p node ([], memo) = (v, ms, memo')"
        by (cases "walk ?fn p node ([], memo)") auto
      show ?thesis
        using inv w ne Some \<open>RegexpCompile lib ?p3 = Some regex\<close> assms(1)
        by (cases v) (auto simp: glob_def filepath_Walk_def Let_def)
    qed
  qed
qed

lemma reached_relative:
  assumes p: "clean_relative p" "p \<noteq> []"
    and m: "reached fs bfn (path_elems p) m"
  shows "prefix p m"
    and "\<not> length m < length p + 1
       \<Longrightarrow> \<not> list_ex (isPackageInternal fs bfn) (dirs_between p (drop (length p + 1) m))"
proof -
  let ?rs = "path_elems p"
  have rs: "list_all proper_elem ?rs" and pj: "p = join_slash ?rs"
    using p(1) by (simp_all add: clean_relative_def)
  have rne: "?rs \<noteq> []"
    using p(2) pj by auto
  obtain ns where ns: "m = join_slash (?rs @ ns)" "list_all proper_elem ns"
    "\<forall>k. 0 < k \<and> k < length ns \<longrightarrow> \<not> isPackageInternal fs bfn (join_slash (?rs @ take k ns))"
    using m unfolding reached_def by blast
  have m_eq: "m = (if ns = [] then p else p @ CHR ''/'' # join_slash ns)"
    using ns(1) pj rne by (simp add: join_slash_append)
  then show "prefix p m"
    by (simp split: if_splits)
  assume long: "\<not> length m < length p + 1"
  then have nne: "ns \<noteq> []"
    using m_eq by (auto split: if_splits)
  then have f: "drop (length p + 1) m = join_slash ns"
    using m_eq by simp
  have fne: "join_slash ns \<noteq> []" "\<not> path_rooted (join_slash ns)"
    "path_elems (join_slash ns) = ns"
    using ns(2) nne by (simp_all add: join_slash_eq_Nil join_slash_not_rooted path_elems_join)
  have "''..'' \<notin> set ns"
    using ns(2) by (auto simp: list_all_iff proper_elem_def)
  then show "\<not> list_ex (isPackageInternal fs bfn) (dirs_between p (drop (length p + 1) m))"
    unfolding f using dirs_between_clean [OF p(1), of "join_slash ns"] fne nne ns(3)
    by auto
qed

lemma Glob_filter_outside:
  assumes p: "clean_relative p" "p \<noteq> []"
  shows "\<forall>m\<in>set matches. reached fs bfn (path_elems p) m
     \<Longrightarrow> \<forall>f\<in>set filenames. \<not> list_ex (isPackageInternal fs bfn) (dirs_between p f)
     \<Longrightarrow> Glob_filter lib p excludes includeHidden matches filenames = Inr result
     \<Longrightarrow> \<forall>f\<in>set result. \<not> list_ex (isPackageInternal fs bfn) (dirs_between p f)"
proof (induction matches arbitrary: filenames)
  case Nil
  then show ?case by simp
next
  case (Cons m matches)
  have m: "reached fs bfn (path_elems p) m"
    using Cons.prems(1) by simp
  note rel = reached_relative [OF p m]
  show ?case
  proof (cases "\<not> includeHidden \<and> hidden_file m")
    case True
    with Cons show ?thesis by simp
  next
    case False
    show ?thesis
    proof (cases "shouldExcludeMatch lib m p excludes")
      case (Inl e)
      with False Cons.prems(3) show ?thesis by auto
    next
      case (Inr excluded)
      show ?thesis
      proof (cases excluded)
        case True
        with False Inr Cons show ?thesis by auto
      next
        case False
        note keep = this
        show ?thesis
        proof (cases "length m < length p + 1")
          case True
          with keep Inr \<open>\<not> (\<not> includeHidden \<and> hidden_file m)\<close> rel(1) Cons.prems(3)
          show ?thesis by auto
        next
          case False
          have ms: "\<forall>m\<in>set matches. reached fs bfn (path_elems p) m"
            using Cons.prems(1) by simp
          have good: "\<forall>f\<in>set (filenames @ [drop (length p + 1) m]).
              \<not> list_ex (isPackageInternal fs bfn) (dirs_between p f)"
            using Cons.prems(2) rel(2) [OF False] by simp
          have run: "Glob_filter lib p excludes includeHidden matches
              (filenames @ [drop (length p + 1) m]) = Inr result"
            using keep Inr \<open>\<not> (\<not> includeHidden \<and> hidden_file m)\<close> rel(1) False Cons.prems(3)
            by auto
          show ?thesis
            by (rule Cons.IH [OF ms good run])
        qed
      qed
    qed
  qed
qed

lemma Glob_includes_outside:
  assumes p: "clean_relative p" and fs: "fs_names_proper fs"
  shows "list_all (\<lambda>pattern. strings_Contains pattern ''**'') incs
     \<Longrightarrow> memo_consistent fs bfn memo
     \<Longrightarrow> \<forall>f\<in>set filenames. \<not> list_ex (isPackageInternal fs bfn) (dirs_between p f)
     \<Longrightarrow> fst (Glob_includes lib fs bfn p incs excludes includeHidden filenames memo)
           = Inr result
     \<Longrightarrow> \<forall>f\<in>set result. \<not> list_ex (isPackageInternal fs bfn) (dirs_between p f)"
proof (induction incs arbitrary: filenames memo)
  case Nil
  then show ?case by simp
next
  case (Cons pattern incs)
  have pat: "strings_Contains pattern ''**''"
    using Cons.prems(1) by simp
  note g = glob_walk_reached [OF pat p fs Cons.prems(2), of lib]
  obtain r memo' where r: "glob lib fs bfn p pattern memo = (r, memo')"
    by (cases "glob lib fs bfn p pattern memo")
  show ?case
  proof (cases r)
    case (Inl e)
    with r Cons.prems(4) show ?thesis by simp
  next
    case (Inr matches)
    with g r have memo': "memo_consistent fs bfn memo'" and ne: "p \<noteq> []"
      and ms: "\<forall>m\<in>set matches. reached fs bfn (path_elems p) m"
      by simp_all
    show ?thesis
    proof (cases "Glob_filter lib p excludes includeHidden matches filenames")
      case (Inl e)
      with r \<open>r = Inr matches\<close> Cons.prems(4) show ?thesis by simp
    next
      case (Inr filenames')
      have "\<forall>f\<in>set filenames'. \<not> list_ex (isPackageInternal fs bfn) (dirs_between p f)"
        using Glob_filter_outside [OF p ne ms Cons.prems(3) Inr] .
      moreover have "fst (Glob_includes lib fs bfn p incs excludes includeHidden
          filenames' memo') = Inr result"
        using r \<open>r = Inr matches\<close> Inr Cons.prems(4) by simp
      ultimately show ?thesis
        using Cons.IH [of memo' filenames'] Cons.prems(1) memo' by simp
    qed
  qed
qed

text \<open>
  Claim C7, as amended. Let the package name be a clean relative path, every name in
  the file system a proper path element, and the memo of \<^verbatim>\<open>isPackage\<close> in agreement with the
  file system. When every include pattern contains \<^verbatim>\<open>**\<close>, no file that \<^verbatim>\<open>Glob\<close> returns
  lies in a directory below the package directory that is itself a package, whatever the
  exclude patterns are and whether hidden files are included or not.
\<close>

theorem Glob_double_star_stays_in_package:
  assumes "clean_relative p" "fs_names_proper fs" "memo_consistent fs bfn memo"
    and "list_all (\<lambda>pattern. strings_Contains pattern ''**'') patterns"
    and "fst (Glob lib fs bfn p patterns excludes includeHidden memo) = Inr filenames"
  shows "list_all (\<lambda>f. \<not> list_ex (isPackageInternal fs bfn) (dirs_between p f)) filenames"
  using Glob_includes_outside [OF assms(1,2,4,3), of "[]" lib excludes includeHidden filenames]
    assms(5)
  by (simp add: Glob_def list_all_iff)

theorem Glob_double_star_stays_in_package_witness:
  "clean_relative ''p'' \<and> fs_names_proper glob_fs
   \<and> memo_consistent glob_fs [''BUILD''] Map.empty
   \<and> list_all (\<lambda>pattern. strings_Contains pattern ''**'') [''**/*.go'']
   \<and> isPackageInternal glob_fs [''BUILD''] ''p/sub''
   \<and> fst (Glob example_matcher glob_fs [''BUILD''] ''p'' [''**/*.go''] [] False Map.empty)
       = Inr [''lib/util.go'', ''main.go'']
   \<and> list_all (\<lambda>f. \<not> list_ex (isPackageInternal glob_fs [''BUILD'']) (dirs_between ''p'' f))
        [''lib/util.go'', ''main.go'']"
proof -
  have clean: "clean_relative ''p''" and names: "fs_names_proper glob_fs"
    and sub: "isPackageInternal glob_fs [''BUILD''] ''p/sub''"
    by code_simp+
  have pats: "list_all (\<lambda>pattern. strings_Contains pattern ''**'') [''**/*.go'']"
    by simp
  have run: "fst (Glob example_matcher glob_fs [''BUILD''] ''p'' [''**/*.go''] [] False Map.empty)
       = Inr [''lib/util.go'', ''main.go'']"
    by code_simp
  show ?thesis
    using clean names sub pats run memo_consistent_empty
      Glob_double_star_stays_in_package [OF clean names memo_consistent_empty pats run]
    by blast
qed

text \<open>
  The claim as it is written fails for a pattern without \<^verbatim>\<open>**\<close>: such a pattern is handed
  to \<^verbatim>\<open>filepath.Glob\<close>, which knows nothing of packages. With the include pattern
  \<^verbatim>\<open>sub/inner.go\<close>, \<^verbatim>\<open>Glob\<close> for package \<^verbatim>\<open>p\<close> returns the file of the package \<^verbatim>\<open>p/sub\<close>.
\<close>

theorem Glob_crosses_package_counterexample:
  "fst (Glob example_matcher glob_fs [''BUILD''] ''p'' [''sub/inner.go''] [] False Map.empty)
     = Inr [''sub/inner.go'']
   \<and> isPackageInternal glob_fs [''BUILD''] ''p/sub''
   \<and> list_ex (isPackageInternal glob_fs [''BUILD'']) (dirs_between ''p'' ''sub/inner.go'')"
  by code_simp

section \<open>The kinds of the nodes after a change of the file system\<close>

lemma fs_kind_Nil [simp]: "fs_kind t [] = Some (kind_of t)"
  by (simp add: fs_kind_def)

lemma fs_kind_File [simp]: "fs_kind (File m c) (n # ns) = None"
  by (simp add: fs_kind_def)

lemma fs_kind_Dir:
  "fs_kind (Dir es) (n # ns) = (case map_of es n of None \<Rightarrow> None | Some c \<Rightarrow> fs_kind c ns)"
  by (simp add: fs_kind_def split: option.splits)

lemma fs_kind_parent:
  "fs_kind t (q @ r) \<noteq> None \<Longrightarrow> r \<noteq> [] \<Longrightarrow> fs_kind t q = Some DirK"
proof (induction q arbitrary: t)
  case Nil
  then show ?case by (cases t; cases r) simp_all
next
  case (Cons n q)
  then show ?case
    by (cases t) (auto simp: fs_kind_Dir split: option.splits)
qed

lemma fs_kind_remove:
  "p \<noteq> [] \<Longrightarrow> fs_kind (fs_remove t p) q = (if prefix p q then None else fs_kind t q)"
proof (induction t p arbitrary: q rule: fs_remove.induct)
  case (1 t)
  then show ?case by simp
next
  case (2 m c n ns)
  then show ?case by (cases q) auto
next
  case (3 es n)
  then show ?case
    by (cases q) (auto simp: fs_kind_Dir delete_conv' split: option.splits)
next
  case (4 es n v va)
  then show ?case
    by (cases q) (auto simp: fs_kind_Dir update_conv' split: option.splits)
qed

lemma fs_kind_mkdir_all:
  "fs_mkdir_all t p = Inr t' \<Longrightarrow>
     fs_kind t' q = (if prefix q p then Some DirK else fs_kind t q)"
proof (induction t p arbitrary: t' q rule: fs_mkdir_all.induct)
  case (1 m c ns)
  then show ?case by simp
next
  case (2 es)
  then show ?case by (cases q) auto
next
  case (3 es n ns)
  then obtain c' where c': "fs_mkdir_all (case map_of es n of None \<Rightarrow> Dir [] | Some c \<Rightarrow> c) ns = Inr c'"
    and t': "t' = Dir (AList.update n c' es)"
    by (auto split: sum.splits)
  show ?case
  proof (cases q)
    case Nil
    then show ?thesis using t' by simp
  next
    case (Cons m ms)
    show ?thesis
    proof (cases "m = n")
      case True
      have "fs_kind c' ms = (if prefix ms ns then Some DirK
          else fs_kind (case map_of es n of None \<Rightarrow> Dir [] | Some c \<Rightarrow> c) ms)"
        using "3.IH" [OF c'] .
      moreover have "fs_kind (Dir []) ms = None" if "\<not> prefix ms ns"
        using that by (cases ms) (simp_all add: fs_kind_Dir)
      ultimately show ?thesis
        using Cons True t' by (auto simp: fs_kind_Dir update_conv' split: option.splits)
    next
      case False
      then show ?thesis
        using Cons t' by (simp add: fs_kind_Dir update_conv')
    qed
  qed
qed

lemma fs_mkdir_all_succeeds:
  "(\<And>q. prefix q p \<Longrightarrow> fs_kind t q = None \<or> fs_kind t q = Some DirK)
     \<Longrightarrow> \<exists>t'. fs_mkdir_all t p = Inr t'"
proof (induction t p rule: fs_mkdir_all.induct)
  case (1 m c ns)
  from "1" [of "[]"] show ?case by simp
next
  case (2 es)
  then show ?case by simp
next
  case (3 es n ns)
  let ?c = "case map_of es n of None \<Rightarrow> Dir [] | Some c \<Rightarrow> c"
  have "fs_kind ?c q = None \<or> fs_kind ?c q = Some DirK" if "prefix q ns" for q
  proof (cases "map_of es n")
    case None
    then show ?thesis by (cases q) (simp_all add: fs_kind_Dir)
  next
    case (Some c)
    with "3.prems" [of "n # q"] that show ?thesis
      by (simp add: fs_kind_Dir)
  qed
  then obtain c' where "fs_mkdir_all ?c ns = Inr c'"
    using "3.IH" by blast
  then show ?case by simp
qed

lemma fs_kind_put:
  "fs_put t p new = Inr t' \<Longrightarrow>
     fs_kind t' q = (if prefix p q then fs_kind new (drop (length p) q) else fs_kind t q)"
proof (induction t p new arbitrary: t' q rule: fs_put.induct)
  case (1 t new)
  then show ?case by simp
next
  case (2 m c n ns new)
  then show ?case by simp
next
  case (3 es n new)
  then show ?case
    by (cases q) (auto simp: fs_kind_Dir update_conv' split: option.splits)
next
  case (4 es n v va new)
  then obtain c c' where c: "map_of es n = Some c" "fs_put c (v # va) new = Inr c'"
    and t': "t' = Dir (AList.update n c' es)"
    by (auto split: option.splits sum.splits)
  from "4.IH" [OF c] t' c(1) show ?case
    by (cases q) (auto simp: fs_kind_Dir update_conv' split: option.splits)
qed

lemma fs_put_succeeds:
  "p \<noteq> [] \<Longrightarrow> fs_kind t (butlast p) = Some DirK \<Longrightarrow> \<exists>t'. fs_put t p new = Inr t'"
proof (induction t p new rule: fs_put.induct)
  case (1 t new)
  then show ?case by simp
next
  case (2 m c n ns new)
  then show ?case by (cases ns) (simp_all)
next
  case (3 es n new)
  then show ?case by simp
next
  case (4 es n v va new)
  then obtain c where c: "map_of es n = Some c" "fs_kind c (butlast (v # va)) = Some DirK"
    by (auto simp: fs_kind_Dir split: option.splits)
  with "4.IH" [OF c(1)] obtain c' where "fs_put c (v # va) new = Inr c'"
    by auto
  with c show ?case by simp
qed

lemma fs_kind_set_mode:
  "fs_kind (set_mode mode t) q = map_option (kind_set_mode mode) (fs_kind t q)"
proof (induction q arbitrary: t)
  case Nil
  then show ?case by (cases t) simp_all
next
  case (Cons n q)
  show ?case
  proof (cases t)
    case (File m c)
    then show ?thesis by simp
  next
    case (Dir es)
    have "map_of (map (\<lambda>e. (fst e, set_mode mode (snd e))) es) n
        = map_option (set_mode mode) (map_of es n)"
      by (induction es) auto
    then show ?thesis
      using Dir Cons.IH by (auto simp: fs_kind_Dir split: option.splits)
  qed
qed

section \<open>Clean paths and their elements\<close>

lemma split_slash_join_strings:
  "xs \<noteq> [] \<Longrightarrow> split_slash (join_slash xs) = concat (map split_slash xs)"
  by (induction xs rule: join_slash.induct) (simp_all add: split_slash_append)

lemma clean_fold_join:
  assumes "list_all proper_elem cs"
  shows "foldl (clean_step r) acc (split_slash (join_slash cs)) = acc @ cs"
proof (cases "cs = []")
  case True
  then show ?thesis by (simp add: clean_step_def)
next
  case False
  have "\<forall>e\<in>set cs. CHR ''/'' \<notin> set e"
    using assms by (auto simp: list_all_iff proper_elem_def)
  with False have "split_slash (join_slash cs) = cs"
    by (rule split_slash_join)
  then show ?thesis
    using assms by (simp add: foldl_clean_step_proper)
qed

lemma clean_fold_render:
  assumes "list_all proper_elem cs"
  shows "foldl (clean_step r') acc (split_slash (render r cs)) = acc @ cs"
proof -
  have "split_slash (CHR ''/'' # join_slash cs) = [] # split_slash (join_slash cs)"
    by simp
  then show ?thesis
    using clean_fold_join [OF assms] assms
    by (auto simp: render_def clean_step_def)
qed

lemma path_rooted_render:
  assumes "list_all proper_elem cs"
  shows "path_rooted (render r cs) = r"
  using join_slash_not_rooted [OF assms]
  by (auto simp: render_def path_rooted_def)

lemma render_not_Nil: "list_all proper_elem cs \<Longrightarrow> render r cs \<noteq> []"
  by (auto simp: render_def join_slash_eq_Nil)

lemma path_elems_render:
  "list_all proper_elem cs \<Longrightarrow> path_elems (render r cs) = cs"
  using clean_fold_render [of cs _ "[]" r] by (simp add: path_elems_def)

lemma path_Clean_elems:
  "p \<noteq> [] \<Longrightarrow> path_Clean p = render (path_rooted p) (path_elems p)"
  by (simp add: path_Clean_def render_def)

lemma path_Clean_render:
  "list_all proper_elem cs \<Longrightarrow> path_Clean (render r cs) = render r cs"
  by (simp add: path_Clean_elems path_elems_render path_rooted_render render_not_Nil)

lemma not_outside_render:
  "list_all proper_elem cs \<Longrightarrow> \<not> outside_tree (render r cs)"
  using render_not_Nil [of cs r]
  by (auto simp: outside_tree_def path_elems_render list_all_iff proper_elem_def)

lemma fs_stat_render:
  "list_all proper_elem cs \<Longrightarrow> fs_stat fs (render r cs) = fs_lookup fs cs"
  using not_outside_render [of cs r]
  by (simp add: fs_stat_def outside_tree_def path_elems_render render_not_Nil)

lemma clean_fold_pieces:
  assumes "list_all clean_relative xs"
  shows "foldl (clean_step r) acc (concat (map split_slash xs)) = acc @ concat (map path_elems xs)"
  using assms
proof (induction xs arbitrary: acc)
  case Nil
  then show ?case by simp
next
  case (Cons x xs)
  then have x: "list_all proper_elem (path_elems x)" "x = join_slash (path_elems x)"
    by (simp_all add: clean_relative_def)
  have "foldl (clean_step r) acc (split_slash x) = acc @ path_elems x"
    using clean_fold_join [OF x(1), of r acc] x(2) by simp
  then show ?case
    using Cons by simp
qed

lemma path_Join_render:
  assumes "list_all proper_elem cs" "list_all clean_relative xs"
  shows "path_Join (render r cs # xs) = render r (cs @ concat (map path_elems xs))"
proof -
  let ?j = "join_slash (render r cs # xs)"
  note rne = render_not_Nil [OF assms(1), of r]
  have ne: "?j \<noteq> []"
    using rne by (cases xs) simp_all
  have rooted: "path_rooted ?j = r"
    using path_rooted_render [OF assms(1), of r] rne
    by (cases xs) (simp_all add: path_rooted_append)
  have "split_slash ?j = split_slash (render r cs) @ concat (map split_slash xs)"
    by (simp add: split_slash_join_strings)
  then have "path_elems ?j = cs @ concat (map path_elems xs)"
    using clean_fold_render [OF assms(1), of r "[]" r] clean_fold_pieces [OF assms(2), of r cs]
    by (simp add: path_elems_def rooted)
  then show ?thesis
    using ne rooted rne by (simp add: path_Join_def path_Clean_elems)
qed

lemma clean_relative_join:
  "list_all proper_elem cs \<Longrightarrow> clean_relative (join_slash cs)"
  by (simp add: clean_relative_def path_elems_join)

lemma path_Dir_render:
  assumes "list_all proper_elem cs" "proper_elem e"
  shows "path_Dir (render r (cs @ [e])) = render r cs"
proof (cases r)
  case False
  then show ?thesis
    using path_Dir_join_snoc [OF assms] by (simp add: render_def)
next
  case True
  have e: "CHR ''/'' \<notin> set e"
    using assms(2) by (simp add: proper_elem_def)
  show ?thesis
  proof (cases "cs = []")
    case True
    have "dropWhile (\<lambda>c. c \<noteq> CHR ''/'') (rev e @ ''/'') = ''/''"
      using e by (subst dropWhile_append2) auto
    then have "fst (path_Split (CHR ''/'' # e)) = ''/''"
      by (simp add: path_Split_def)
    then show ?thesis
      using True \<open>r\<close>
      by (simp add: render_def path_Dir_def path_Clean_def path_rooted_def path_elems_def
          clean_step_def)
  next
    case False
    have "dropWhile (\<lambda>c. c \<noteq> CHR ''/'') (rev e @ CHR ''/'' # rev (CHR ''/'' # join_slash cs))
        = CHR ''/'' # rev (CHR ''/'' # join_slash cs)"
      using e by (subst dropWhile_append2) auto
    then have split: "fst (path_Split (CHR ''/'' # join_slash (cs @ [e])))
        = render True cs @ ''/''"
      using False by (simp add: path_Split_def join_slash_snoc render_def)
    have "split_slash (render True cs @ ''/'') = split_slash (render True cs) @ [[]]"
      using split_slash_append [of "render True cs" "[]"] by simp
    then have "path_elems (render True cs @ ''/'') = cs"
      using clean_fold_render [OF assms(1), of True "[]" True]
      by (simp add: path_elems_def path_rooted_append path_rooted_render [OF assms(1)]
          clean_step_def render_not_Nil [OF assms(1)])
    then have "path_Clean (render True cs @ ''/'') = render True cs"
      by (simp add: path_Clean_elems path_rooted_append path_rooted_render [OF assms(1)]
          render_not_Nil [OF assms(1)])
    then show ?thesis
      using split \<open>r\<close> by (simp add: path_Dir_def render_def)
  qed
qed

lemma render_eq_dot:
  "list_all proper_elem cs \<Longrightarrow> (render r cs = ''.'') = (\<not> r \<and> cs = [])"
  using join_slash_not_dot [of cs] by (auto simp: render_def)

section \<open>The steps of the cache\<close>

lemma keeps_refl: "keeps_or_sets_mode mode fs fs"
  by (simp add: keeps_or_sets_mode_def)

lemma keeps_trans:
  "keeps_or_sets_mode mode a b \<Longrightarrow> keeps_or_sets_mode mode b c \<Longrightarrow> keeps_or_sets_mode mode a c"
  unfolding keeps_or_sets_mode_def by blast

lemma keeps_remove: "keeps_or_sets_mode mode fs (fs_remove fs p)"
  by (cases "p = []") (auto simp: keeps_or_sets_mode_def fs_kind_remove split: if_splits)

lemma keeps_mkdir_all: "fs_mkdir_all fs p = Inr fs' \<Longrightarrow> keeps_or_sets_mode mode fs fs'"
  by (auto simp: keeps_or_sets_mode_def fs_kind_mkdir_all split: if_splits)

lemma kind_set_mode_File: "kind_set_mode mode z = FileK m c \<Longrightarrow> m = mode"
  by (cases z) auto

lemma keeps_put:
  "fs_put fs p (set_mode mode node) = Inr fs' \<Longrightarrow> keeps_or_sets_mode mode fs fs'"
  by (auto simp: keeps_or_sets_mode_def fs_kind_put fs_kind_set_mode
      split: if_splits dest: kind_set_mode_File)

lemma keeps_os_RemoveAll: "os_RemoveAll fs p = Inr fs' \<Longrightarrow> keeps_or_sets_mode mode fs fs'"
  using keeps_remove keeps_refl by (auto simp: os_RemoveAll_def split: if_splits)

lemma keeps_os_MkdirAll: "os_MkdirAll fs p = Inr fs' \<Longrightarrow> keeps_or_sets_mode mode fs fs'"
  using keeps_mkdir_all by (auto simp: os_MkdirAll_def split: if_splits)

lemma keeps_RecursiveCopyFile:
  "RecursiveCopyFile fs src dst mode link = Inr fs' \<Longrightarrow> keeps_or_sets_mode mode fs fs'"
  using keeps_put by (auto simp: RecursiveCopyFile_def split: option.splits if_splits)

lemma keeps_StoreExtra:
  "keeps_or_sets_mode (fileMode target) fs (StoreExtra core env cache target key out fs)"
  unfolding StoreExtra_def Let_def
  by (auto split: sum.splits
      dest!: keeps_os_MkdirAll [where mode = "fileMode target"]
        keeps_os_RemoveAll [where mode = "fileMode target"]
        keeps_RecursiveCopyFile
      intro: keeps_refl)
    (blast intro: keeps_trans)+

lemma keeps_Store:
  "keeps_or_sets_mode (fileMode target) fs (Store core env cache target key fs)"
proof -
  let ?k = "keeps_or_sets_mode (fileMode target)"
  have fold: "?k fs fs1 \<Longrightarrow>
      ?k fs (foldl (\<lambda>fs' out. StoreExtra core env cache target key out fs') fs1 outs)"
    for fs1 outs
  proof (induction outs arbitrary: fs1)
    case Nil
    then show ?case by simp
  next
    case (Cons out outs)
    have "?k fs (StoreExtra core env cache target key out fs1)"
      using Cons.prems keeps_StoreExtra keeps_trans by blast
    then show ?case
      using Cons.IH by simp
  qed
  show ?thesis
    using fold keeps_os_RemoveAll keeps_refl
    by (auto simp: Store_def split: sum.splits)
qed

lemma keeps_RetrieveExtra:
  "keeps_or_sets_mode (fileMode target) fs
     (snd (RetrieveExtra core env cache target key out fs))"
  unfolding RetrieveExtra_def Let_def
  by (auto split: sum.splits
      dest!: keeps_os_MkdirAll [where mode = "fileMode target"]
        keeps_os_RemoveAll [where mode = "fileMode target"]
        keeps_RecursiveCopyFile
      intro: keeps_refl)
    (blast intro: keeps_trans)+

lemma keeps_Retrieve_loop:
  "keeps_or_sets_mode (fileMode target) fs
     (snd (Retrieve_loop core env cache target key outs fs))"
proof (induction outs arbitrary: fs)
  case Nil
  then show ?case by (simp add: keeps_refl)
next
  case (Cons out outs)
  obtain b fs' where r: "RetrieveExtra core env cache target key out fs = (b, fs')"
    by (cases "RetrieveExtra core env cache target key out fs")
  then have k: "keeps_or_sets_mode (fileMode target) fs fs'"
    using keeps_RetrieveExtra [of target fs core env cache key out] by simp
  show ?case
    using r k Cons.IH [of fs'] keeps_trans by (cases b) auto
qed

lemma keeps_Retrieve:
  "keeps_or_sets_mode (fileMode target) fs (snd (Retrieve core env cache target key fs))"
  by (simp add: Retrieve_def keeps_refl keeps_Retrieve_loop)

lemma os_RemoveAll_render:
  "list_all proper_elem cs \<Longrightarrow> cs \<noteq> [] \<Longrightarrow> os_RemoveAll fs (render r cs) = Inr (fs_remove fs cs)"
  by (simp add: os_RemoveAll_def not_outside_render path_elems_render)

lemma os_MkdirAll_render:
  "list_all proper_elem cs \<Longrightarrow> os_MkdirAll fs (render r cs) = fs_mkdir_all fs cs"
  by (simp add: os_MkdirAll_def not_outside_render path_elems_render)

lemma PathExists_render:
  "list_all proper_elem cs \<Longrightarrow> PathExists fs (render r cs) = (fs_lookup fs cs \<noteq> None)"
  by (simp add: PathExists_def fs_stat_render)

lemma RecursiveCopyFile_render:
  "list_all proper_elem s \<Longrightarrow> list_all proper_elem d \<Longrightarrow>
   RecursiveCopyFile fs (render r1 s) (render r2 d) mode link =
     (case fs_lookup fs s of None \<Rightarrow> Inl NotExist
      | Some node \<Rightarrow> fs_put fs d (set_mode mode node))"
  by (simp add: RecursiveCopyFile_def fs_stat_render not_outside_render path_elems_render
      split: option.splits)

lemma proper_elem_clean:
  assumes "proper_elem e"
  shows "clean_relative e" "path_elems e = [e]"
proof -
  have e: "e = render False [e]"
    by (simp add: render_def)
  have p: "list_all proper_elem [e]"
    using assms by simp
  show "path_elems e = [e]"
    using path_elems_render [OF p, of False] e by simp
  show "clean_relative e"
    using clean_relative_join [OF p] by simp
qed

lemma layout_facts:
  assumes "cache_layout core env cache target key rc cdir ro odir"
  shows "list_all proper_elem cdir" "cdir \<noteq> []" "list_all proper_elem odir"
    "getPath env cache target key = render rc cdir"
    "path_Join [RepoRoot env, OutDir core target] = render ro odir"
    "clean_relative out \<Longrightarrow>
       path_Join [RepoRoot env, OutDir core target, out] = render ro (odir @ path_elems out)"
proof -
  obtain cs rs where cs: "list_all proper_elem cs" "CacheDir cache = render rc cs"
    and pk: "clean_relative (PackageName (Label target))"
    and nm: "proper_elem (Name (Label target))" and ek: "proper_elem (EncodeKey env key)"
    and cd: "cdir = cs @ path_elems (PackageName (Label target))
                 @ [Name (Label target), EncodeKey env key]"
    and rs: "list_all proper_elem rs" "RepoRoot env = render ro rs"
    and od: "clean_relative (OutDir core target)"
    and oe: "odir = rs @ path_elems (OutDir core target)"
    using assms unfolding cache_layout_def by blast
  show "list_all proper_elem cdir"
    using cs pk nm ek cd by (simp add: clean_relative_def)
  show "cdir \<noteq> []"
    using cd by simp
  show "list_all proper_elem odir"
    using rs od oe by (simp add: clean_relative_def)
  have "list_all clean_relative
      [PackageName (Label target), Name (Label target), EncodeKey env key]"
    using pk nm ek proper_elem_clean(1) by simp
  from path_Join_render [OF cs(1) this, of rc]
  show "getPath env cache target key = render rc cdir"
    using cs(2) cd proper_elem_clean(2) [OF nm] proper_elem_clean(2) [OF ek]
    by (simp add: getPath_def)
  have "list_all clean_relative [OutDir core target]"
    using od by simp
  from path_Join_render [OF rs(1) this, of ro]
  show "path_Join [RepoRoot env, OutDir core target] = render ro odir"
    using rs(2) oe by simp
  assume "clean_relative out"
  then have "list_all clean_relative [OutDir core target, out]"
    using od by simp
  from path_Join_render [OF rs(1) this, of ro]
  show "path_Join [RepoRoot env, OutDir core target, out] = render ro (odir @ path_elems out)"
    using rs(2) oe by simp
qed

lemma artifact_facts:
  assumes "clean_artifact out"
  shows "path_elems out \<noteq> []" "list_all proper_elem (path_elems out)"
    "out = render False (path_elems out)" "clean_relative out"
proof -
  show c: "clean_relative out" and p: "list_all proper_elem (path_elems out)"
    using assms by (simp_all add: clean_artifact_def clean_relative_def)
  have j: "out = join_slash (path_elems out)"
    using c by (simp add: clean_relative_def)
  show n: "path_elems out \<noteq> []"
  proof
    assume "path_elems out = []"
    then have "out = []"
      using j by simp
    then show False
      using assms by (simp add: clean_artifact_def)
  qed
  show "out = render False (path_elems out)"
    using j n by (simp add: render_def)
qed

lemma path_Join_render_one:
  assumes "list_all proper_elem cs" "list_all proper_elem bs"
  shows "path_Join [render r cs, join_slash bs] = render r (cs @ bs)"
proof -
  have "list_all clean_relative [join_slash bs]"
    using clean_relative_join [OF assms(2)] by simp
  from path_Join_render [OF assms(1) this, of r] show ?thesis
    using path_elems_join [OF assms(2)] by simp
qed

lemma path_Dir_artifact:
  assumes "list_all proper_elem bs" "bs \<noteq> []"
  shows "path_Dir (join_slash bs) = render False (butlast bs)"
proof -
  have b: "bs = butlast bs @ [last bs]"
    using assms(2) by simp
  have p: "list_all proper_elem (butlast bs)" "proper_elem (last bs)"
    using assms b by (metis list_all_append, metis list_all_append list.pred_inject(2))
  have "join_slash bs = render False (butlast bs @ [last bs])"
    using assms(2) b by (simp add: render_def)
  then show ?thesis
    using path_Dir_render [OF p, of False] by simp
qed

lemma list_all_butlast: "list_all P xs \<Longrightarrow> list_all P (butlast xs)"
  by (induction xs) auto

lemma render_False_join: "bs \<noteq> [] \<Longrightarrow> render False bs = join_slash bs"
  by (simp add: render_def)

lemma StoreExtra_steps:
  assumes lay: "cache_layout core env cache target key rc cdir ro odir"
    and art: "clean_artifact out"
  shows "StoreExtra core env cache target key out fs =
    store_steps (fileMode target) cdir odir (path_elems out) fs"
proof -
  let ?es = "path_elems out"
  note L = layout_facts [OF lay]
  note A = artifact_facts [OF art]
  have out: "out = join_slash ?es"
    using A(3) A(1) by (simp add: render_def)
  have bl: "list_all proper_elem (butlast ?es)"
    using A(2) by (rule list_all_butlast)
  have dir: "path_Dir out = render False (butlast ?es)"
    using path_Dir_artifact [OF A(2) A(1)] out by simp
  have dot: "(path_Dir out = ''.'') = (butlast ?es = [])"
    using dir render_eq_dot [OF bl, of False] by simp
  have ce: "list_all proper_elem (cdir @ ?es)" "list_all proper_elem (odir @ ?es)"
      "list_all proper_elem (cdir @ butlast ?es)"
    using L(1) L(3) A(2) bl by simp_all
  have j1: "butlast ?es \<noteq> [] \<Longrightarrow>
      path_Join [render rc cdir, path_Dir out] = render rc (cdir @ butlast ?es)"
    using path_Join_render_one [OF L(1) bl, of rc] dir by (simp add: render_False_join)
  have j2: "path_Join [render rc cdir, out] = render rc (cdir @ ?es)"
    using path_Join_render_one [OF L(1) A(2), of rc] out by simp
  have j3: "path_Join [RepoRoot env, OutDir core target, out] = render ro (odir @ ?es)"
    using L(6) [OF A(4)] .
  have rm: "os_RemoveAll t (render rc (cdir @ ?es)) = Inr (fs_remove t (cdir @ ?es))" for t
    using os_RemoveAll_render [OF ce(1)] A(1) by simp
  show ?thesis
    unfolding StoreExtra_def store_steps_def Let_def L(4) j2 j3 rm
      os_MkdirAll_render [OF L(1)] RecursiveCopyFile_render [OF ce(2) ce(1)]
    using j1 dot os_MkdirAll_render [OF ce(3), of _ rc]
    by (auto split: sum.splits option.splits)
qed

lemma RetrieveExtra_steps:
  assumes lay: "cache_layout core env cache target key rc cdir ro odir"
    and art: "clean_artifact out"
  shows "RetrieveExtra core env cache target key out fs =
    retrieve_steps (fileMode target) cdir odir (path_elems out) fs"
proof -
  let ?es = "path_elems out"
  note L = layout_facts [OF lay]
  note A = artifact_facts [OF art]
  have out: "out = join_slash ?es"
    using A(3) A(1) by (simp add: render_def)
  have bl: "list_all proper_elem (butlast ?es)"
    using A(2) by (rule list_all_butlast)
  have lst: "proper_elem (last ?es)"
    using A(2) A(1) by (simp add: list_all_iff)
  have ce: "list_all proper_elem (cdir @ ?es)" "list_all proper_elem (odir @ ?es)"
      "list_all proper_elem (odir @ butlast ?es)"
    using L(1) L(3) A(2) bl by simp_all
  have j2: "path_Join [render rc cdir, out] = render rc (cdir @ ?es)"
    using path_Join_render_one [OF L(1) A(2), of rc] out by simp
  have j3: "path_Join [render ro odir, out] = render ro (odir @ ?es)"
    using path_Join_render_one [OF L(3) A(2), of ro] out by simp
  have "path_Dir (render ro ((odir @ butlast ?es) @ [last ?es])) = render ro (odir @ butlast ?es)"
    using path_Dir_render [OF ce(3) lst] .
  then have dir: "path_Dir (render ro (odir @ ?es)) = render ro (odir @ butlast ?es)"
    using A(1) by simp
  have rm: "os_RemoveAll t (render ro (odir @ ?es)) = Inr (fs_remove t (odir @ ?es))" for t
    using os_RemoveAll_render [OF ce(2)] A(1) by simp
  have root: "fs_lookup fs (cdir @ ?es) \<noteq> None \<Longrightarrow> fs_mkdir_all fs [] = Inr fs"
    using L(2) by (cases fs; cases cdir) auto
  have dot: "(render ro (odir @ butlast ?es) = ''.'') = (\<not> ro \<and> odir @ butlast ?es = [])"
    using render_eq_dot [OF ce(3)] .
  show ?thesis
    unfolding RetrieveExtra_def retrieve_steps_def Let_def L(4) L(5) j2 j3 rm dir
      PathExists_render [OF ce(1)] os_MkdirAll_render [OF ce(3)]
      RecursiveCopyFile_render [OF ce(1) ce(2)]
    using dot root
    by (auto split: sum.splits option.splits)
qed

lemma fs_kind_lookup: "fs_lookup t p = Some n \<Longrightarrow> fs_kind n r = fs_kind t (p @ r)"
proof (induction p arbitrary: t)
  case Nil
  then show ?case by simp
next
  case (Cons a p)
  then show ?case
    by (cases t) (auto simp: fs_kind_def split: option.splits)
qed

lemma fs_lookup_kind: "(fs_lookup t p = None) = (fs_kind t p = None)"
  by (simp add: fs_kind_def)

lemma apart_append:
  assumes "\<not> prefix a b" "\<not> prefix b a"
  shows "\<not> prefix (a @ x) (b @ y)"
proof
  assume "prefix (a @ x) (b @ y)"
  then have "prefix a (b @ y)"
    using append_prefixD by blast
  moreover have "prefix b (b @ y)"
    by simp
  ultimately show False
    using assms prefix_same_cases by blast
qed

lemma kind_set_mode_idem [simp]:
  "kind_set_mode mode (kind_set_mode mode k) = kind_set_mode mode k"
  by (cases k) simp_all

lemma kind_set_mode_DirK: "map_option (kind_set_mode mode) (Some DirK) = Some DirK"
  by simp

lemma put_transfer:
  assumes "fs_lookup t (src @ elems) = Some node"
    and "fs_put t (dst @ elems) (set_mode mode node) = Inr t'"
  shows "fs_kind t' q =
    (if prefix (dst @ elems) q
     then map_option (kind_set_mode mode) (fs_kind t (src @ drop (length dst) q))
     else fs_kind t q)"
proof (cases "prefix (dst @ elems) q")
  case True
  then obtain r where q: "q = dst @ elems @ r"
    by (auto simp: prefix_def)
  show ?thesis
    using fs_kind_put [OF assms(2), of q] fs_kind_lookup [OF assms(1), of r]
    by (simp add: q fs_kind_set_mode)
next
  case False
  then show ?thesis
    using fs_kind_put [OF assms(2), of q] by simp
qed

lemma retrieve_steps_True:
  assumes run: "retrieve_steps mode cdir odir elems fs = (True, fs')"
    and ne: "elems \<noteq> []"
  shows "\<exists>k. \<forall>q. fs_kind fs' q =
    (if prefix (odir @ elems) q
     then map_option (kind_set_mode mode) (k (cdir @ drop (length odir) q))
     else if prefix q (odir @ butlast elems) then Some DirK else fs_kind fs q)"
    and "\<not> prefix cdir odir \<Longrightarrow> \<not> prefix odir cdir \<Longrightarrow>
      transferred mode cdir odir elems (fs_kind fs) (fs_kind fs')"
proof -
  obtain fs1 node where mk: "fs_mkdir_all fs (odir @ butlast elems) = Inr fs1"
    and lk: "fs_lookup (fs_remove fs1 (odir @ elems)) (cdir @ elems) = Some node"
    and pt: "fs_put (fs_remove fs1 (odir @ elems)) (odir @ elems) (set_mode mode node) = Inr fs'"
    using run unfolding retrieve_steps_def
    by (auto split: if_splits sum.splits option.splits)
  let ?fs2 = "fs_remove fs1 (odir @ elems)"
  have k2: "fs_kind ?fs2 q =
      (if prefix (odir @ elems) q then None
       else if prefix q (odir @ butlast elems) then Some DirK else fs_kind fs q)" for q
    using ne by (simp add: fs_kind_remove fs_kind_mkdir_all [OF mk])
  have k3: "fs_kind fs' q =
    (if prefix (odir @ elems) q
     then map_option (kind_set_mode mode) (fs_kind ?fs2 (cdir @ drop (length odir) q))
     else if prefix q (odir @ butlast elems) then Some DirK else fs_kind fs q)" for q
    using put_transfer [OF lk pt, of q] k2 [of q] by simp
  then show "\<exists>k. \<forall>q. fs_kind fs' q =
    (if prefix (odir @ elems) q
     then map_option (kind_set_mode mode) (k (cdir @ drop (length odir) q))
     else if prefix q (odir @ butlast elems) then Some DirK else fs_kind fs q)"
    by blast
  assume apart: "\<not> prefix cdir odir" "\<not> prefix odir cdir"
  have "fs_kind ?fs2 (cdir @ r) = fs_kind fs (cdir @ r)" for r
    using k2 [of "cdir @ r"] apart_append [OF apart(2) apart(1), of elems r]
      apart_append [OF apart, of r "butlast elems"]
    by simp
  then show "transferred mode cdir odir elems (fs_kind fs) (fs_kind fs')"
    unfolding transferred_def using k3 by simp
qed

lemma dirs_free_iff:
  "dirs_free fs p = (\<forall>q. prefix q p \<longrightarrow> fs_kind fs q = None \<or> fs_kind fs q = Some DirK)"
  by (auto simp: dirs_free_def list_all_iff)

lemma butlast_parent: "elems \<noteq> [] \<Longrightarrow> butlast (p @ elems) = p @ butlast elems"
  by (simp add: butlast_append)

lemma not_prefix_butlast: "elems \<noteq> [] \<Longrightarrow> \<not> prefix (p @ elems) (p @ butlast elems)"
  by (metis append_butlast_last_id append_Nil2 not_Cons_self2 prefix_order.antisym
      prefix_snoc same_prefix_prefix prefixI)



lemma store_steps_transferred:
  assumes ex: "fs_kind fs (odir @ elems) \<noteq> None"
    and free: "dirs_free fs (cdir @ butlast elems)"
    and apart: "\<not> prefix cdir odir" "\<not> prefix odir cdir"
    and ne: "elems \<noteq> []"
  shows "transferred mode odir cdir elems (fs_kind fs) (fs_kind (store_steps mode cdir odir elems fs))"
proof -
  let ?r1 = "if butlast elems = [] then Inr fs else fs_mkdir_all fs (cdir @ butlast elems)"
  obtain fs0 where mk0: "fs_mkdir_all fs (cdir @ butlast elems) = Inr fs0"
    using fs_mkdir_all_succeeds [of "cdir @ butlast elems" fs] free
    by (auto simp: dirs_free_iff)
  obtain fs1 where r1: "?r1 = Inr fs1"
    using mk0 by (cases "butlast elems = []") auto
  have k1: "prefix q cdir \<Longrightarrow> fs_kind fs1 q = None \<or> fs_kind fs1 q = Some DirK"
    and k1': "\<not> prefix q cdir \<Longrightarrow> fs_kind fs1 q =
      (if prefix q (cdir @ butlast elems) then Some DirK else fs_kind fs q)" for q
    using r1 free fs_kind_mkdir_all [of fs "cdir @ butlast elems" fs1 q]
    by (auto simp: dirs_free_iff split: if_splits)
  let ?fs2 = "fs_remove fs1 (cdir @ elems)"
  have k2: "fs_kind ?fs2 q = (if prefix (cdir @ elems) q then None else fs_kind fs1 q)" for q
    using ne by (simp add: fs_kind_remove)
  have "\<exists>fs3. fs_mkdir_all ?fs2 cdir = Inr fs3"
  proof (rule fs_mkdir_all_succeeds)
    fix q
    assume "prefix q cdir"
    then show "fs_kind ?fs2 q = None \<or> fs_kind ?fs2 q = Some DirK"
      using k1 [of q] k2 [of q] by auto
  qed
  then obtain fs3 where mk: "fs_mkdir_all ?fs2 cdir = Inr fs3"
    by blast
  have k3: "fs_kind fs3 q =
      (if prefix (cdir @ elems) q then None
       else if prefix q (cdir @ butlast elems) then Some DirK else fs_kind fs q)" for q
  proof (cases "prefix q cdir")
    case True
    then have "\<not> prefix (cdir @ elems) q"
      using ne by (metis append_Nil2 prefix_order.antisym prefix_append same_append_eq prefixI prefix_order.trans)
    moreover have "prefix q (cdir @ butlast elems)"
      using True by (simp add: prefix_prefix)
    ultimately show ?thesis
      using True fs_kind_mkdir_all [OF mk, of q] by simp
  next
    case False
    then show ?thesis
      using fs_kind_mkdir_all [OF mk, of q] k2 [of q] k1' [of q] by simp
  qed
  have src: "fs_kind fs3 (odir @ r) = fs_kind fs (odir @ r)" for r
    using k3 [of "odir @ r"] apart_append [OF apart, of elems r]
      apart_append [OF apart(2) apart(1), of r "butlast elems"]
    by simp
  have "fs_kind fs3 (odir @ elems) \<noteq> None"
    using src [of elems] ex by simp
  then obtain node where lk: "fs_lookup fs3 (odir @ elems) = Some node"
    by (auto simp: fs_kind_def)
  have "fs_kind fs3 (butlast (cdir @ elems)) = Some DirK"
    using k3 [of "cdir @ butlast elems"] ne not_prefix_butlast [OF ne, of cdir]
    by (simp add: butlast_parent)
  then obtain fs4 where
    pt: "fs_put fs3 (cdir @ elems) (set_mode mode node) = Inr fs4"
    using fs_put_succeeds [of "cdir @ elems" fs3 "set_mode mode node"] ne by auto
  have res: "store_steps mode cdir odir elems fs = fs4"
    using r1 mk lk pt unfolding store_steps_def by simp
  have "fs_kind fs4 q =
    (if prefix (cdir @ elems) q
     then map_option (kind_set_mode mode) (fs_kind fs (odir @ drop (length cdir) q))
     else if prefix q (cdir @ butlast elems) then Some DirK else fs_kind fs q)" for q
    using put_transfer [OF lk pt, of q] k3 [of q] src by simp
  then show ?thesis
    unfolding transferred_def res by simp
qed

lemma prefix_butlast_split:
  assumes "prefix r (butlast elems)" "elems \<noteq> []"
  shows "\<exists>r'. elems = r @ r' \<and> r' \<noteq> []"
proof -
  obtain s where "butlast elems = r @ s"
    using assms(1) by (auto simp: prefix_def)
  then have "elems = r @ (s @ [last elems])"
    using assms(2) by (metis append_butlast_last_id append_assoc)
  then show ?thesis
    by blast
qed

lemma prefix_butlast_prefix: "prefix r (butlast elems) \<Longrightarrow> prefix r elems"
  by (meson prefix_order.trans prefixeq_butlast)

lemma mirror_pre:
  assumes inv: "mirror_inv mode src dst ref seen k"
    and tree: "\<forall>q r. ref (q @ r) \<noteq> None \<longrightarrow> r \<noteq> [] \<longrightarrow> ref q = Some DirK"
    and ex: "ref elems \<noteq> None"
    and ne: "elems \<noteq> []"
    and pre: "prefix q (dst @ butlast elems)"
  shows "k q = None \<or> k q = Some DirK"
proof -
  from pre have "prefix q dst \<or> (\<exists>r. q = dst @ r \<and> prefix r (butlast elems))"
    by (simp add: prefix_append)
  then consider "prefix q dst" | r where "q = dst @ r" "prefix r (butlast elems)" "r \<noteq> []"
    by (metis append_Nil2 prefix_order.refl)
  then show ?thesis
  proof cases
    case 1
    then show ?thesis
      using inv by (simp add: mirror_inv_def)
  next
    case 2
    obtain r' where "elems = r @ r'" "r' \<noteq> []"
      using prefix_butlast_split [OF 2(2) ne] by blast
    then have "ref r = Some DirK"
      using tree ex by simp
    moreover have "k (dst @ r) = None \<or> k (dst @ r) = map_option (kind_set_mode mode) (ref r)"
      using inv 2(3) by (simp add: mirror_inv_def)
    ultimately show ?thesis
      using 2(1) by auto
  qed
qed

lemma mirror_step:
  assumes inv: "mirror_inv mode src dst ref seen k"
    and tree: "\<forall>q r. ref (q @ r) \<noteq> None \<longrightarrow> r \<noteq> [] \<longrightarrow> ref q = Some DirK"
    and ex: "ref elems \<noteq> None"
    and ne: "elems \<noteq> []"
    and apart: "\<not> prefix src dst" "\<not> prefix dst src"
    and tr: "transferred mode src dst elems k k'"
  shows "mirror_inv mode src dst ref (insert elems seen) k'"
proof -
  have i1: "k (src @ r) = ref r" for r
    using inv by (simp add: mirror_inv_def)
  have i2: "r \<noteq> [] \<Longrightarrow>
      k (dst @ r) = None \<or> k (dst @ r) = map_option (kind_set_mode mode) (ref r)" for r
    using inv by (simp add: mirror_inv_def)
  have i3: "a \<in> seen \<Longrightarrow> k (dst @ a @ r) = map_option (kind_set_mode mode) (ref (a @ r))"
    for a r
    using inv by (simp add: mirror_inv_def)
  have i4: "k (dst @ r) \<noteq> None \<Longrightarrow> r = [] \<or> (\<exists>a\<in>seen. prefix a r \<or> prefix r a)" for r
    using inv unfolding mirror_inv_def by blast
  have i5: "prefix q dst \<Longrightarrow> k q = None \<or> k q = Some DirK" for q
    using inv by (simp add: mirror_inv_def)
  have dirs: "prefix r (butlast elems) \<Longrightarrow> ref r = Some DirK" for r
  proof -
    assume "prefix r (butlast elems)"
    then obtain r' where "elems = r @ r'" "r' \<noteq> []"
      using prefix_butlast_split [OF _ ne] by blast
    then show ?thesis
      using tree ex by simp
  qed
  have kd: "k' (dst @ r) =
      (if prefix elems r then map_option (kind_set_mode mode) (ref r)
       else if prefix r (butlast elems) then Some DirK else k (dst @ r))" for r
    using tr i1 by (simp add: transferred_def)
  have ks: "k' (src @ r) = ref r" for r
    using tr i1 apart_append [OF apart(2) apart(1), of elems r]
      apart_append [OF apart, of r "butlast elems"]
    by (simp add: transferred_def)
  have kp: "prefix q dst \<Longrightarrow> k' q = Some DirK" for q
  proof -
    assume p: "prefix q dst"
    then have "\<not> prefix (dst @ elems) q"
      using ne by (metis append_Nil2 prefix_order.antisym prefix_order.trans prefixI
          same_append_eq)
    moreover have "prefix q (dst @ butlast elems)"
      using p by (simp add: prefix_prefix)
    ultimately show ?thesis
      using tr by (simp add: transferred_def)
  qed
  have c2: "r \<noteq> [] \<Longrightarrow>
      k' (dst @ r) = None \<or> k' (dst @ r) = map_option (kind_set_mode mode) (ref r)" for r
    using kd [of r] i2 [of r] dirs [of r] by auto
  have c3: "a \<in> insert elems seen \<Longrightarrow>
      k' (dst @ a @ r) = map_option (kind_set_mode mode) (ref (a @ r))" for a r
  proof -
    assume a: "a \<in> insert elems seen"
    show ?thesis
    proof (cases "prefix elems (a @ r)")
      case True
      then show ?thesis
        using kd [of "a @ r"] by simp
    next
      case False
      then have "a \<noteq> elems"
        by auto
      then have "a \<in> seen"
        using a by simp
      then show ?thesis
        using False kd [of "a @ r"] i3 [of a r] dirs [of "a @ r"] by auto
    qed
  qed
  have c4: "k' (dst @ r) \<noteq> None \<Longrightarrow>
      r = [] \<or> (\<exists>a\<in>insert elems seen. prefix a r \<or> prefix r a)" for r
    using kd [of r] i4 [of r] prefix_butlast_prefix [of r elems]
    by (auto split: if_splits)
  show ?thesis
    unfolding mirror_inv_def using ks c2 c3 c4 kp by blast
qed

lemma fs_kind_tree:
  "fs_kind t (p @ q @ r) \<noteq> None \<Longrightarrow> r \<noteq> [] \<Longrightarrow> fs_kind t (p @ q) = Some DirK"
  using fs_kind_parent [of t "p @ q" r] by simp

lemma mirror_inv_source: "mirror_inv mode src dst ref seen k \<Longrightarrow> k (src @ r) = ref r"
  by (simp add: mirror_inv_def)

lemma Store_loop_inv:
  assumes lay: "cache_layout core env cache target key rc cdir ro odir"
    and apart: "\<not> prefix cdir odir" "\<not> prefix odir cdir"
  shows "\<forall>out\<in>set outs. clean_artifact out \<and> fs_kind fs0 (odir @ path_elems out) \<noteq> None \<Longrightarrow>
    mirror_inv (fileMode target) odir cdir (\<lambda>r. fs_kind fs0 (odir @ r)) seen (fs_kind fs) \<Longrightarrow>
    mirror_inv (fileMode target) odir cdir (\<lambda>r. fs_kind fs0 (odir @ r))
      (seen \<union> path_elems ` set outs)
      (fs_kind (foldl (\<lambda>fs' out. StoreExtra core env cache target key out fs') fs outs))"
proof (induction outs arbitrary: fs seen)
  case Nil
  then show ?case by simp
next
  case (Cons out outs)
  let ?es = "path_elems out"
  let ?ref = "\<lambda>r. fs_kind fs0 (odir @ r)"
  have art: "clean_artifact out" and ex: "?ref ?es \<noteq> None"
    using Cons.prems(1) by simp_all
  have ne: "?es \<noteq> []"
    using artifact_facts(1) [OF art] .
  have tree: "\<forall>q r. ?ref (q @ r) \<noteq> None \<longrightarrow> r \<noteq> [] \<longrightarrow> ?ref q = Some DirK"
    using fs_kind_tree [of fs0 odir] by simp
  have step: "StoreExtra core env cache target key out fs =
      store_steps (fileMode target) cdir odir ?es fs"
    using StoreExtra_steps [OF lay art] .
  have "fs_kind fs (odir @ ?es) \<noteq> None"
    using mirror_inv_source [OF Cons.prems(2), of ?es] ex by simp
  moreover have "dirs_free fs (cdir @ butlast ?es)"
    unfolding dirs_free_iff
    using mirror_pre [OF Cons.prems(2) tree ex ne] by blast
  ultimately have "transferred (fileMode target) odir cdir ?es (fs_kind fs)
      (fs_kind (store_steps (fileMode target) cdir odir ?es fs))"
    using store_steps_transferred apart ne by blast
  from mirror_step [OF Cons.prems(2) tree ex ne apart(2) apart(1) this]
  have "mirror_inv (fileMode target) odir cdir ?ref (insert ?es seen)
      (fs_kind (StoreExtra core env cache target key out fs))"
    using step by simp
  from Cons.IH [OF _ this] show ?case
    using Cons.prems(1) by simp
qed

lemma strict_prefix_butlast: "prefix q p \<Longrightarrow> q \<noteq> p \<Longrightarrow> prefix q (butlast p)"
  by (metis append_butlast_last_id butlast.simps(1) prefix_snoc prefix_bot.extremum_uniqueI)

lemma Store_inv:
  assumes lay: "cache_layout core env cache target key rc cdir ro odir"
    and apart: "\<not> prefix cdir odir" "\<not> prefix odir cdir"
    and arts: "\<forall>out\<in>set (cacheArtifacts env target).
      clean_artifact out \<and> fs_kind fs0 (odir @ path_elems out) \<noteq> None"
    and free: "dirs_free fs0 (butlast cdir)"
  shows "mirror_inv (fileMode target) odir cdir (\<lambda>r. fs_kind fs0 (odir @ r))
      (path_elems ` set (cacheArtifacts env target))
      (fs_kind (Store core env cache target key fs0))"
proof -
  note L = layout_facts [OF lay]
  have rm: "os_RemoveAll fs0 (getPath env cache target key) = Inr (fs_remove fs0 cdir)"
    using os_RemoveAll_render [OF L(1) L(2)] L(4) by simp
  have k: "fs_kind (fs_remove fs0 cdir) q = (if prefix cdir q then None else fs_kind fs0 q)"
    for q
    using fs_kind_remove [OF L(2)] .
  have "mirror_inv (fileMode target) odir cdir (\<lambda>r. fs_kind fs0 (odir @ r)) {}
      (fs_kind (fs_remove fs0 cdir))"
    unfolding mirror_inv_def
  proof (intro conjI allI impI ballI)
    fix r
    show "fs_kind (fs_remove fs0 cdir) (odir @ r) = fs_kind fs0 (odir @ r)"
      using k [of "odir @ r"] apart_append [OF apart, of "[]" r] by simp
  next
    fix r :: "string list"
    show "fs_kind (fs_remove fs0 cdir) (cdir @ r) = None \<or>
      fs_kind (fs_remove fs0 cdir) (cdir @ r) =
        map_option (kind_set_mode (fileMode target)) (fs_kind fs0 (odir @ r))"
      using k [of "cdir @ r"] by simp
  next
    fix r
    assume "fs_kind (fs_remove fs0 cdir) (cdir @ r) \<noteq> None"
    then show "r = [] \<or> (\<exists>a\<in>{}. prefix a r \<or> prefix r a)"
      using k [of "cdir @ r"] by simp
  next
    fix q
    assume p: "prefix q cdir"
    show "fs_kind (fs_remove fs0 cdir) q = None \<or> fs_kind (fs_remove fs0 cdir) q = Some DirK"
    proof (cases "q = cdir")
      case True
      then show ?thesis
        using k [of q] by simp
    next
      case False
      then have "prefix q (butlast cdir)"
        using p strict_prefix_butlast by blast
      then have "fs_kind fs0 q = None \<or> fs_kind fs0 q = Some DirK"
        using free by (simp add: dirs_free_iff)
      then show ?thesis
        using k [of q] by auto
    qed
  qed simp
  from Store_loop_inv [OF lay apart arts this] show ?thesis
    by (simp add: Store_def rm)
qed






section \<open>File modes of the cache\<close>

lemma files_have_mode_keeps:
  "files_have_mode mode fs p \<Longrightarrow> keeps_or_sets_mode mode fs fs' \<Longrightarrow> files_have_mode mode fs' p"
  unfolding files_have_mode_def keeps_or_sets_mode_def by blast

lemma files_have_mode_absent:
  "(\<And>r. fs_kind fs (p @ r) = None) \<Longrightarrow> files_have_mode mode fs p"
  by (simp add: files_have_mode_def)

lemma map_kind_set_mode_File:
  "map_option (kind_set_mode mode) k = Some (FileK m c) \<Longrightarrow> m = mode"
  by (cases k) (auto dest: kind_set_mode_File)

lemma fs_mkdir_all_fails:
  assumes "fs_mkdir_all fs p = Inl e"
  shows "\<exists>q m c. prefix q p \<and> fs_kind fs q = Some (FileK m c)"
proof (rule ccontr)
  assume no: "\<not> ?thesis"
  have "fs_kind fs q = None \<or> fs_kind fs q = Some DirK" if "prefix q p" for q
  proof (cases "fs_kind fs q")
    case None
    then show ?thesis by simp
  next
    case (Some k)
    then show ?thesis
      using no that by (cases k) auto
  qed
  then have "\<exists>t'. fs_mkdir_all fs p = Inr t'"
    by (rule fs_mkdir_all_succeeds)
  then show False
    using assms by auto
qed

lemma store_steps_modes:
  assumes ne: "elems \<noteq> []"
  shows "files_have_mode mode (store_steps mode cdir odir elems fs) (cdir @ elems)"
proof -
  let ?r1 = "if butlast elems = [] then Inr fs else fs_mkdir_all fs (cdir @ butlast elems)"
  show ?thesis
  proof (cases ?r1)
    case (Inl e)
    then have fail: "fs_mkdir_all fs (cdir @ butlast elems) = Inl e"
      by (auto split: if_splits)
    then obtain q m c where q: "prefix q (cdir @ butlast elems)"
      "fs_kind fs q = Some (FileK m c)"
      using fs_mkdir_all_fails by blast
    have "fs_kind fs ((cdir @ elems) @ r) = None" for r
    proof (rule ccontr)
      assume ex: "fs_kind fs ((cdir @ elems) @ r) \<noteq> None"
      obtain s where s: "cdir @ butlast elems = q @ s"
        using q(1) by (auto simp: prefix_def)
      have "(cdir @ elems) @ r = q @ (s @ last elems # r)"
        using s ne by (metis append_butlast_last_id append_assoc append_Cons append_Nil)
      then have "fs_kind fs q = Some DirK"
        using fs_kind_parent [of fs q "s @ last elems # r"] ex by simp
      then show False
        using q(2) by simp
    qed
    then have "files_have_mode mode fs (cdir @ elems)"
      by (rule files_have_mode_absent)
    then show ?thesis
      using Inl by (simp add: store_steps_def)
  next
    case (Inr fs1)
    let ?fs2 = "fs_remove fs1 (cdir @ elems)"
    have k2: "fs_kind ?fs2 ((cdir @ elems) @ r) = None" for r
      using ne by (simp add: fs_kind_remove)
    show ?thesis
    proof (cases "fs_mkdir_all ?fs2 cdir")
      case (Inl e)
      then show ?thesis
        using Inr k2 by (simp add: store_steps_def files_have_mode_absent)
    next
      case mk: (Inr fs3)
      have "\<not> prefix ((cdir @ elems) @ r) cdir" for r
        using ne by (metis append_Nil2 append_assoc prefix_order.antisym prefixI same_append_eq
            append_is_Nil_conv)
      then have k3: "fs_kind fs3 ((cdir @ elems) @ r) = None" for r
        using fs_kind_mkdir_all [OF mk, of "(cdir @ elems) @ r"] k2 [of r] by simp
      then have m3: "files_have_mode mode fs3 (cdir @ elems)"
        by (rule files_have_mode_absent)
      show ?thesis
      proof (cases "fs_lookup fs3 (odir @ elems)")
        case None
        then show ?thesis
          using Inr mk m3 by (simp add: store_steps_def)
      next
        case (Some node)
        show ?thesis
        proof (cases "fs_put fs3 (cdir @ elems) (set_mode mode node)")
          case (Inl e)
          then show ?thesis
            using Inr mk Some m3 by (simp add: store_steps_def)
        next
          case pt: (Inr fs4)
          have "files_have_mode mode fs4 (cdir @ elems)"
            unfolding files_have_mode_def
            using fs_kind_put [OF pt] map_kind_set_mode_File
            by (auto simp: fs_kind_set_mode)
          then show ?thesis
            using Inr mk Some pt by (simp add: store_steps_def)
        qed
      qed
    qed
  qed
qed

lemma retrieve_steps_modes:
  assumes "retrieve_steps mode cdir odir elems fs = (True, fs')" "elems \<noteq> []"
  shows "files_have_mode mode fs' (odir @ elems)"
proof -
  obtain k where "\<forall>q. fs_kind fs' q =
    (if prefix (odir @ elems) q
     then map_option (kind_set_mode mode) (k (cdir @ drop (length odir) q))
     else if prefix q (odir @ butlast elems) then Some DirK else fs_kind fs q)"
    using retrieve_steps_True(1) [OF assms] by blast
  then have "fs_kind fs' ((odir @ elems) @ r) =
      map_option (kind_set_mode mode) (k (cdir @ elems @ r))" for r
    by simp
  then show ?thesis
    unfolding files_have_mode_def using map_kind_set_mode_File by metis
qed

lemma Store_modes:
  assumes lay: "cache_layout core env cache target key rc cdir ro odir"
  shows "files_have_mode (fileMode target) (Store core env cache target key fs) cdir"
proof -
  note L = layout_facts [OF lay]
  have rm: "os_RemoveAll fs (getPath env cache target key) = Inr (fs_remove fs cdir)"
    using os_RemoveAll_render [OF L(1) L(2)] L(4) by simp
  have "files_have_mode (fileMode target) (fs_remove fs cdir) cdir"
    using L(2) by (simp add: files_have_mode_def fs_kind_remove)
  moreover have "files_have_mode (fileMode target) t cdir \<Longrightarrow>
      files_have_mode (fileMode target)
        (foldl (\<lambda>fs' out. StoreExtra core env cache target key out fs') t outs) cdir" for t outs
  proof (induction outs arbitrary: t)
    case Nil
    then show ?case by simp
  next
    case (Cons out outs)
    have "files_have_mode (fileMode target) (StoreExtra core env cache target key out t) cdir"
      using files_have_mode_keeps [OF Cons.prems keeps_StoreExtra] .
    then show ?case
      using Cons.IH by simp
  qed
  ultimately show ?thesis
    by (simp add: Store_def rm)
qed

lemma Retrieve_loop_modes:
  assumes lay: "cache_layout core env cache target key rc cdir ro odir"
  shows "list_all clean_artifact outs \<Longrightarrow>
    fst (Retrieve_loop core env cache target key outs fs) \<Longrightarrow>
    list_all (\<lambda>out. files_have_mode (fileMode target)
        (snd (Retrieve_loop core env cache target key outs fs)) (odir @ path_elems out)) outs"
proof (induction outs arbitrary: fs)
  case Nil
  then show ?case by simp
next
  case (Cons out outs)
  have art: "clean_artifact out" and rest: "list_all clean_artifact outs"
    using Cons.prems(1) by simp_all
  obtain b fs' where r: "RetrieveExtra core env cache target key out fs = (b, fs')"
    by (cases "RetrieveExtra core env cache target key out fs")
  then have b: "b" and run: "fst (Retrieve_loop core env cache target key outs fs')"
    using Cons.prems(2) by (cases b; simp)+
  have "retrieve_steps (fileMode target) cdir odir (path_elems out) fs = (True, fs')"
    using RetrieveExtra_steps [OF lay art, of fs] r b by simp
  then have "files_have_mode (fileMode target) fs' (odir @ path_elems out)"
    using retrieve_steps_modes artifact_facts(1) [OF art] by blast
  then have "files_have_mode (fileMode target)
      (snd (Retrieve_loop core env cache target key outs fs')) (odir @ path_elems out)"
    using files_have_mode_keeps keeps_Retrieve_loop by blast
  then show ?case
    using Cons.IH [OF rest run] r b by simp
qed

lemma example_layout:
  "cache_layout example_core cache_env example_cache cache_target [1, 2, 3]
     True key_dir True out_dir"
  unfolding cache_layout_def
  apply (rule exI [of _ "[''repo'', ''.plz-cache'']"])
  apply (rule exI [of _ "[''repo'']"])
  apply code_simp
  done

lemma example_artifacts:
  "clean_artifact ''include/lib.h''"
  "list_all clean_artifact (cacheArtifacts cache_env cache_target)"
  "path_elems ''include/lib.h'' = [''include'', ''lib.h'']"
  by code_simp+

section \<open>Storing and retrieving\<close>

lemma cache_paths:
  assumes lay: "cache_layout core env cache target key rc cdir ro odir"
  shows "PathExists fs (getPath env cache target key) = (fs_kind fs cdir \<noteq> None)"
    and "clean_artifact out \<Longrightarrow>
      PathExists fs (path_Join [getPath env cache target key, out]) =
        (fs_kind fs (cdir @ path_elems out) \<noteq> None)"
    and "clean_artifact out \<Longrightarrow>
      PathExists fs (path_Join [RepoRoot env, OutDir core target, out]) =
        (fs_kind fs (odir @ path_elems out) \<noteq> None)"
proof -
  note L = layout_facts [OF lay]
  show "PathExists fs (getPath env cache target key) = (fs_kind fs cdir \<noteq> None)"
    using PathExists_render [OF L(1), of fs rc] L(4) by (simp add: fs_lookup_kind)
  {
    assume art: "clean_artifact out"
    note A = artifact_facts [OF art]
    have out: "out = join_slash (path_elems out)"
      using A(3) A(1) by (simp add: render_def)
    have ce: "list_all proper_elem (cdir @ path_elems out)"
        "list_all proper_elem (odir @ path_elems out)"
      using L(1) L(3) A(2) by simp_all
    have "path_Join [render rc cdir, out] = render rc (cdir @ path_elems out)"
      using path_Join_render_one [OF L(1) A(2), of rc] out by simp
    then show "PathExists fs (path_Join [getPath env cache target key, out]) =
        (fs_kind fs (cdir @ path_elems out) \<noteq> None)"
      using PathExists_render [OF ce(1), of fs rc] L(4) by (simp add: fs_lookup_kind)
    show "PathExists fs (path_Join [RepoRoot env, OutDir core target, out]) =
        (fs_kind fs (odir @ path_elems out) \<noteq> None)"
      using PathExists_render [OF ce(2), of fs ro] L(6) [OF A(4)] by (simp add: fs_lookup_kind)
  }
qed




lemma example_store:
  "out_dir_empty stored_fs out_dir"
  "list_all (\<lambda>out. PathExists built_fs
      (path_Join [RepoRoot cache_env, OutDir example_core cache_target, out]))
    (cacheArtifacts cache_env cache_target)"
  "dirs_free built_fs (butlast key_dir)"
  "fs_lookup stored_fs key_dir =
    fs_lookup (Store example_core cache_env example_cache cache_target [1, 2, 3] built_fs) key_dir"
  "cacheArtifacts cache_env cache_target \<noteq> []"
  "\<not> prefix key_dir out_dir" "\<not> prefix out_dir key_dir"
  "fs_kind built_fs (out_dir @ [''include'', ''lib.h'']) = Some (FileK 420 ''h'')"
  "''include/lib.h'' \<in> set (cacheArtifacts cache_env cache_target)"
  by code_simp+



section \<open>The modes of the stored and retrieved files\<close>

lemma copied_step:
  assumes tr: "transferred mode src dst elems k k'"
    and apart: "\<not> prefix src dst" "\<not> prefix dst src"
    and ne: "elems \<noteq> []"
    and src: "\<forall>r. k (src @ r) = ref r"
    and tree: "\<forall>q r. ref (q @ r) \<noteq> None \<longrightarrow> r \<noteq> [] \<longrightarrow> ref q = Some DirK"
    and ex: "ref elems \<noteq> None"
    and seen: "\<forall>a\<in>seen. \<forall>r. k (dst @ a @ r) = map_option (kind_set_mode mode) (ref (a @ r))"
  shows "\<forall>r. k' (src @ r) = ref r"
    and "\<forall>a\<in>insert elems seen. \<forall>r.
      k' (dst @ a @ r) = map_option (kind_set_mode mode) (ref (a @ r))"
proof -
  have dirs: "prefix r (butlast elems) \<Longrightarrow> ref r = Some DirK" for r
  proof -
    assume "prefix r (butlast elems)"
    then obtain r' where "elems = r @ r'" "r' \<noteq> []"
      using prefix_butlast_split [OF _ ne] by blast
    then show ?thesis
      using tree ex by simp
  qed
  have kd: "k' (dst @ r) =
      (if prefix elems r then map_option (kind_set_mode mode) (ref r)
       else if prefix r (butlast elems) then Some DirK else k (dst @ r))" for r
    using tr src by (simp add: transferred_def)
  show "\<forall>r. k' (src @ r) = ref r"
    using tr src apart_append [OF apart(2) apart(1), of elems]
      apart_append [OF apart, of _ "butlast elems"]
    by (simp add: transferred_def)
  show "\<forall>a\<in>insert elems seen. \<forall>r.
      k' (dst @ a @ r) = map_option (kind_set_mode mode) (ref (a @ r))"
  proof (intro ballI allI)
    fix a r
    assume a: "a \<in> insert elems seen"
    show "k' (dst @ a @ r) = map_option (kind_set_mode mode) (ref (a @ r))"
    proof (cases "prefix elems (a @ r)")
      case True
      then show ?thesis
        using kd [of "a @ r"] by simp
    next
      case False
      then have "a \<noteq> elems"
        by auto
      then have "a \<in> seen"
        using a by simp
      then show ?thesis
        using False kd [of "a @ r"] seen dirs [of "a @ r"] by auto
    qed
  qed
qed

lemma Retrieve_loop_copied:
  assumes lay: "cache_layout core env cache target key rc cdir ro odir"
    and apart: "\<not> prefix cdir odir" "\<not> prefix odir cdir"
  shows "list_all clean_artifact outs \<Longrightarrow>
    \<forall>r. fs_kind fs (cdir @ r) = fs_kind t (cdir @ r) \<Longrightarrow>
    \<forall>a\<in>seen. \<forall>r. fs_kind fs (odir @ a @ r) =
      map_option (kind_set_mode (fileMode target)) (fs_kind t (cdir @ a @ r)) \<Longrightarrow>
    fst (Retrieve_loop core env cache target key outs fs) \<Longrightarrow>
    (\<forall>out\<in>set outs. fs_kind t (cdir @ path_elems out) \<noteq> None)
    \<and> (\<forall>a\<in>seen \<union> path_elems ` set outs. \<forall>r.
          fs_kind (snd (Retrieve_loop core env cache target key outs fs)) (odir @ a @ r) =
            map_option (kind_set_mode (fileMode target)) (fs_kind t (cdir @ a @ r)))"
proof (induction outs arbitrary: fs seen)
  case Nil
  then show ?case by simp
next
  case (Cons out outs)
  let ?es = "path_elems out"
  let ?ref = "\<lambda>r. fs_kind t (cdir @ r)"
  have art: "clean_artifact out" and rest: "list_all clean_artifact outs"
    using Cons.prems(1) by simp_all
  have ne: "?es \<noteq> []"
    using artifact_facts(1) [OF art] .
  have tree: "\<forall>q r. ?ref (q @ r) \<noteq> None \<longrightarrow> r \<noteq> [] \<longrightarrow> ?ref q = Some DirK"
    using fs_kind_tree [of t cdir] by simp
  obtain b fs' where r: "RetrieveExtra core env cache target key out fs = (b, fs')"
    by (cases "RetrieveExtra core env cache target key out fs")
  then have b: "b" and run: "fst (Retrieve_loop core env cache target key outs fs')"
    using Cons.prems(4) by (cases b; simp)+
  have steps: "retrieve_steps (fileMode target) cdir odir ?es fs = (True, fs')"
    using RetrieveExtra_steps [OF lay art, of fs] r b by simp
  then have "fs_kind fs (cdir @ ?es) \<noteq> None"
    by (auto simp: retrieve_steps_def fs_lookup_kind split: if_splits)
  then have ex: "?ref ?es \<noteq> None"
    using Cons.prems(2) by simp
  note tr = retrieve_steps_True(2) [OF steps ne apart]
  note step = copied_step [OF tr apart ne Cons.prems(2) tree ex Cons.prems(3)]
  have "(\<forall>out\<in>set outs. fs_kind t (cdir @ path_elems out) \<noteq> None)
    \<and> (\<forall>a\<in>insert ?es seen \<union> path_elems ` set outs. \<forall>r.
          fs_kind (snd (Retrieve_loop core env cache target key outs fs')) (odir @ a @ r) =
            map_option (kind_set_mode (fileMode target)) (fs_kind t (cdir @ a @ r)))"
    using Cons.IH [OF rest step run] .
  then show ?case
    using r b ex by simp
qed

lemma copied_with_mode_files:
  "copied_with_mode mode fs src fs' dst \<Longrightarrow> files_have_mode mode fs' dst"
  unfolding copied_with_mode_def files_have_mode_def
  using map_kind_set_mode_File by metis

lemma copied_with_modeI:
  assumes "fs_kind fs src \<noteq> None"
    and "\<forall>r. fs_kind fs' (dst @ r) = map_option (kind_set_mode mode) (fs_kind fs (src @ r))"
  shows "copied_with_mode mode fs src fs' dst"
proof -
  have "fs_kind fs' (dst @ []) = map_option (kind_set_mode mode) (fs_kind fs (src @ []))"
    using assms(2) by blast
  then have "fs_kind fs' dst \<noteq> None"
    using assms(1) by simp
  then show ?thesis
    using assms(2) by (simp add: copied_with_mode_def)
qed

lemma RetrieveExtra_copied:
  assumes lay: "cache_layout core env cache target key rc cdir ro odir"
    and apart: "\<not> prefix cdir odir" "\<not> prefix odir cdir"
    and art: "clean_artifact out"
    and hit: "fst (RetrieveExtra core env cache target key out fs)"
  shows "copied_with_mode (fileMode target) fs (cdir @ path_elems out)
      (snd (RetrieveExtra core env cache target key out fs)) (odir @ path_elems out)"
proof -
  let ?es = "path_elems out"
  let ?fs' = "snd (RetrieveExtra core env cache target key out fs)"
  have ne: "?es \<noteq> []"
    using artifact_facts(1) [OF art] .
  have steps: "retrieve_steps (fileMode target) cdir odir ?es fs = (True, ?fs')"
    using RetrieveExtra_steps [OF lay art, of fs] hit by (metis prod.collapse)
  then have ex: "fs_kind fs (cdir @ ?es) \<noteq> None"
    by (auto simp: retrieve_steps_def fs_lookup_kind split: if_splits)
  have "\<forall>r. fs_kind ?fs' ((odir @ ?es) @ r) =
      map_option (kind_set_mode (fileMode target)) (fs_kind fs ((cdir @ ?es) @ r))"
    using retrieve_steps_True(2) [OF steps ne apart] by (simp add: transferred_def)
  then show ?thesis
    using ex by (rule copied_with_modeI [rotated])
qed

lemma StoreExtra_copied:
  assumes lay: "cache_layout core env cache target key rc cdir ro odir"
    and apart: "\<not> prefix cdir odir" "\<not> prefix odir cdir"
    and art: "clean_artifact out"
    and ex: "PathExists fs (path_Join [RepoRoot env, OutDir core target, out])"
    and free: "dirs_free fs (cdir @ butlast (path_elems out))"
  shows "copied_with_mode (fileMode target) fs (odir @ path_elems out)
      (StoreExtra core env cache target key out fs) (cdir @ path_elems out)"
proof -
  let ?es = "path_elems out"
  have ne: "?es \<noteq> []"
    using artifact_facts(1) [OF art] .
  have ex': "fs_kind fs (odir @ ?es) \<noteq> None"
    using ex cache_paths(3) [OF lay art, of fs] by simp
  have "transferred (fileMode target) odir cdir ?es (fs_kind fs)
      (fs_kind (StoreExtra core env cache target key out fs))"
    using store_steps_transferred [OF ex' free apart ne] StoreExtra_steps [OF lay art, of fs]
    by simp
  then have "\<forall>r. fs_kind (StoreExtra core env cache target key out fs) ((cdir @ ?es) @ r) =
      map_option (kind_set_mode (fileMode target)) (fs_kind fs ((odir @ ?es) @ r))"
    by (simp add: transferred_def)
  then show ?thesis
    using ex' by (rule copied_with_modeI [rotated])
qed

lemma Store_copied:
  assumes lay: "cache_layout core env cache target key rc cdir ro odir"
    and apart: "\<not> prefix cdir odir" "\<not> prefix odir cdir"
    and arts: "list_all clean_artifact (cacheArtifacts env target)"
    and ex: "list_all (\<lambda>out. PathExists fs (path_Join [RepoRoot env, OutDir core target, out]))
      (cacheArtifacts env target)"
    and free: "dirs_free fs (butlast cdir)"
  shows "list_all (\<lambda>out. copied_with_mode (fileMode target) fs (odir @ path_elems out)
      (Store core env cache target key fs) (cdir @ path_elems out)) (cacheArtifacts env target)"
proof -
  have ex0: "\<forall>out\<in>set (cacheArtifacts env target).
      clean_artifact out \<and> fs_kind fs (odir @ path_elems out) \<noteq> None"
    using arts ex cache_paths(3) [OF lay, where fs = fs] by (simp add: list_all_iff)
  note inv = Store_inv [OF lay apart ex0 free]
  show ?thesis
    unfolding list_all_iff
  proof
    fix out
    assume out: "out \<in> set (cacheArtifacts env target)"
    have "\<forall>r. fs_kind (Store core env cache target key fs) ((cdir @ path_elems out) @ r) =
        map_option (kind_set_mode (fileMode target)) (fs_kind fs ((odir @ path_elems out) @ r))"
      using inv out unfolding mirror_inv_def by simp
    then show "copied_with_mode (fileMode target) fs (odir @ path_elems out)
        (Store core env cache target key fs) (cdir @ path_elems out)"
      using ex0 out by (intro copied_with_modeI) auto
  qed
qed

lemma Retrieve_copied:
  assumes lay: "cache_layout core env cache target key rc cdir ro odir"
    and apart: "\<not> prefix cdir odir" "\<not> prefix odir cdir"
    and arts: "list_all clean_artifact (cacheArtifacts env target)"
    and hit: "fst (Retrieve core env cache target key fs)"
  shows "list_all (\<lambda>out. copied_with_mode (fileMode target) fs (cdir @ path_elems out)
      (snd (Retrieve core env cache target key fs)) (odir @ path_elems out))
    (cacheArtifacts env target)"
proof -
  have "PathExists fs (getPath env cache target key)"
    using hit by (auto simp: Retrieve_def split: if_splits)
  then have eq: "Retrieve core env cache target key fs =
      Retrieve_loop core env cache target key (cacheArtifacts env target) fs"
    by (simp add: Retrieve_def)
  have loop: "(\<forall>out\<in>set (cacheArtifacts env target). fs_kind fs (cdir @ path_elems out) \<noteq> None)
    \<and> (\<forall>a\<in>{} \<union> path_elems ` set (cacheArtifacts env target). \<forall>r.
          fs_kind (snd (Retrieve_loop core env cache target key (cacheArtifacts env target) fs))
            (odir @ a @ r) =
            map_option (kind_set_mode (fileMode target)) (fs_kind fs (cdir @ a @ r)))"
    using hit eq by (intro Retrieve_loop_copied [OF lay apart arts]) simp_all
  show ?thesis
    unfolding list_all_iff
  proof
    fix out
    assume out: "out \<in> set (cacheArtifacts env target)"
    have "\<forall>r. fs_kind (snd (Retrieve core env cache target key fs)) ((odir @ path_elems out) @ r)
        = map_option (kind_set_mode (fileMode target)) (fs_kind fs ((cdir @ path_elems out) @ r))"
      using loop out eq by simp
    then show "copied_with_mode (fileMode target) fs (cdir @ path_elems out)
        (snd (Retrieve core env cache target key fs)) (odir @ path_elems out)"
      using loop out by (intro copied_with_modeI) auto
  qed
qed

lemma copied_with_modeD:
  "copied_with_mode mode fs src fs' dst \<Longrightarrow> fs_kind fs src = Some k \<Longrightarrow>
   fs_kind fs' dst = Some (kind_set_mode mode k)"
proof -
  assume c: "copied_with_mode mode fs src fs' dst" and k: "fs_kind fs src = Some k"
  have "fs_kind fs' (dst @ []) = map_option (kind_set_mode mode) (fs_kind fs (src @ []))"
    using c unfolding copied_with_mode_def by blast
  then show ?thesis
    using k by simp
qed

text \<open>
  Claim C8. The mode of a target is 0555 (365) when it is binary and 0444 (292)
  otherwise.

  Whatever the file system and the paths are, every file that is there after \<^verbatim>\<open>Store\<close>,
  \<^verbatim>\<open>StoreExtra\<close>, \<^verbatim>\<open>Retrieve\<close> or \<^verbatim>\<open>RetrieveExtra\<close> has this mode, or was there before the
  call with the same mode and content.

  When the paths of the cache are clean, every file of the key directory after \<^verbatim>\<open>Store\<close>,
  every file at or below the cached path of an artifact after \<^verbatim>\<open>StoreExtra\<close>, and every
  file at or below the path of an artifact in the output directory after a \<^verbatim>\<open>RetrieveExtra\<close>
  or a \<^verbatim>\<open>Retrieve\<close> that returned true, has the mode.

  When moreover the key directory and the output directory lie apart, the artifacts are
  there with the mode. After a \<^verbatim>\<open>RetrieveExtra\<close> that returned true the artifact is in the
  output directory, and it is the cached artifact with every file at the mode of the
  target; after a \<^verbatim>\<open>Retrieve\<close> that returned true this holds of every artifact. After
  \<^verbatim>\<open>StoreExtra\<close> of an artifact that exists in the output directory, where no file stands
  in the way of the directories of its cached path, the artifact is in the key directory,
  and it is the artifact of the output directory with every file at the mode of the
  target; after \<^verbatim>\<open>Store\<close>, where every artifact exists in the output directory and no file
  stands in the way of the key directory, this holds of every artifact.
\<close>

theorem cache_file_modes:
  "fileMode target = (if IsBinary target then 365 else 292)
   \<and> keeps_or_sets_mode (fileMode target) fs (Store core env cache target key fs)
   \<and> keeps_or_sets_mode (fileMode target) fs (StoreExtra core env cache target key out fs)
   \<and> keeps_or_sets_mode (fileMode target) fs (snd (Retrieve core env cache target key fs))
   \<and> keeps_or_sets_mode (fileMode target) fs
        (snd (RetrieveExtra core env cache target key out fs))
   \<and> (cache_layout core env cache target key rc cdir ro odir \<longrightarrow>
        files_have_mode (fileMode target) (Store core env cache target key fs) cdir
        \<and> (clean_artifact out \<longrightarrow>
             files_have_mode (fileMode target)
               (StoreExtra core env cache target key out fs) (cdir @ path_elems out)
             \<and> (fst (RetrieveExtra core env cache target key out fs) \<longrightarrow>
                  files_have_mode (fileMode target)
                    (snd (RetrieveExtra core env cache target key out fs))
                    (odir @ path_elems out)))
        \<and> (list_all clean_artifact (cacheArtifacts env target)
             \<and> fst (Retrieve core env cache target key fs) \<longrightarrow>
             list_all (\<lambda>out'. files_have_mode (fileMode target)
                 (snd (Retrieve core env cache target key fs)) (odir @ path_elems out'))
               (cacheArtifacts env target))
        \<and> (\<not> prefix cdir odir \<and> \<not> prefix odir cdir \<longrightarrow>
             (clean_artifact out \<longrightarrow>
                (fst (RetrieveExtra core env cache target key out fs) \<longrightarrow>
                   copied_with_mode (fileMode target) fs (cdir @ path_elems out)
                     (snd (RetrieveExtra core env cache target key out fs))
                     (odir @ path_elems out))
                \<and> (PathExists fs (path_Join [RepoRoot env, OutDir core target, out])
                     \<and> dirs_free fs (cdir @ butlast (path_elems out)) \<longrightarrow>
                   copied_with_mode (fileMode target) fs (odir @ path_elems out)
                     (StoreExtra core env cache target key out fs) (cdir @ path_elems out)))
             \<and> (list_all clean_artifact (cacheArtifacts env target) \<longrightarrow>
                  (fst (Retrieve core env cache target key fs) \<longrightarrow>
                     list_all (\<lambda>out'. copied_with_mode (fileMode target) fs
                         (cdir @ path_elems out')
                         (snd (Retrieve core env cache target key fs)) (odir @ path_elems out'))
                       (cacheArtifacts env target))
                  \<and> (list_all (\<lambda>out'. PathExists fs
                          (path_Join [RepoRoot env, OutDir core target, out']))
                        (cacheArtifacts env target)
                       \<and> dirs_free fs (butlast cdir) \<longrightarrow>
                     list_all (\<lambda>out'. copied_with_mode (fileMode target) fs
                         (odir @ path_elems out')
                         (Store core env cache target key fs) (cdir @ path_elems out'))
                       (cacheArtifacts env target)))))"
proof (intro conjI impI)
  show "fileMode target = (if IsBinary target then 365 else 292)"
    by (simp add: fileMode_def)
  show "keeps_or_sets_mode (fileMode target) fs (Store core env cache target key fs)"
    by (rule keeps_Store)
  show "keeps_or_sets_mode (fileMode target) fs (StoreExtra core env cache target key out fs)"
    by (rule keeps_StoreExtra)
  show "keeps_or_sets_mode (fileMode target) fs (snd (Retrieve core env cache target key fs))"
    by (rule keeps_Retrieve)
  show "keeps_or_sets_mode (fileMode target) fs
        (snd (RetrieveExtra core env cache target key out fs))"
    by (rule keeps_RetrieveExtra)
next
  assume lay: "cache_layout core env cache target key rc cdir ro odir"
  show "files_have_mode (fileMode target) (Store core env cache target key fs) cdir"
    using Store_modes [OF lay] .
  {
    assume art: "clean_artifact out"
    show "files_have_mode (fileMode target)
        (StoreExtra core env cache target key out fs) (cdir @ path_elems out)"
      using StoreExtra_steps [OF lay art, of fs] store_steps_modes artifact_facts(1) [OF art]
      by simp
    assume "fst (RetrieveExtra core env cache target key out fs)"
    then have "retrieve_steps (fileMode target) cdir odir (path_elems out) fs =
        (True, snd (RetrieveExtra core env cache target key out fs))"
      using RetrieveExtra_steps [OF lay art, of fs]
      by (metis prod.collapse)
    then show "files_have_mode (fileMode target)
        (snd (RetrieveExtra core env cache target key out fs)) (odir @ path_elems out)"
      using retrieve_steps_modes artifact_facts(1) [OF art] by blast
  }
  {
    assume a: "list_all clean_artifact (cacheArtifacts env target)
        \<and> fst (Retrieve core env cache target key fs)"
    then have "PathExists fs (getPath env cache target key)"
      by (auto simp: Retrieve_def split: if_splits)
    then have eq: "Retrieve core env cache target key fs =
        Retrieve_loop core env cache target key (cacheArtifacts env target) fs"
      by (simp add: Retrieve_def)
    show "list_all (\<lambda>out'. files_have_mode (fileMode target)
        (snd (Retrieve core env cache target key fs)) (odir @ path_elems out'))
      (cacheArtifacts env target)"
      using Retrieve_loop_modes [OF lay, of "cacheArtifacts env target" fs] a eq by simp
  }
  assume "\<not> prefix cdir odir \<and> \<not> prefix odir cdir"
  then have apart: "\<not> prefix cdir odir" "\<not> prefix odir cdir"
    by simp_all
  {
    assume art: "clean_artifact out"
    {
      assume "fst (RetrieveExtra core env cache target key out fs)"
      then show "copied_with_mode (fileMode target) fs (cdir @ path_elems out)
          (snd (RetrieveExtra core env cache target key out fs)) (odir @ path_elems out)"
        by (rule RetrieveExtra_copied [OF lay apart art])
    }
    assume "PathExists fs (path_Join [RepoRoot env, OutDir core target, out])
        \<and> dirs_free fs (cdir @ butlast (path_elems out))"
    then show "copied_with_mode (fileMode target) fs (odir @ path_elems out)
        (StoreExtra core env cache target key out fs) (cdir @ path_elems out)"
      using StoreExtra_copied [OF lay apart art] by blast
  }
  assume arts: "list_all clean_artifact (cacheArtifacts env target)"
  {
    assume "fst (Retrieve core env cache target key fs)"
    then show "list_all (\<lambda>out'. copied_with_mode (fileMode target) fs (cdir @ path_elems out')
        (snd (Retrieve core env cache target key fs)) (odir @ path_elems out'))
      (cacheArtifacts env target)"
      by (rule Retrieve_copied [OF lay apart arts])
  }
  assume "list_all (\<lambda>out'. PathExists fs (path_Join [RepoRoot env, OutDir core target, out']))
        (cacheArtifacts env target)
      \<and> dirs_free fs (butlast cdir)"
  then show "list_all (\<lambda>out'. copied_with_mode (fileMode target) fs (odir @ path_elems out')
      (Store core env cache target key fs) (cdir @ path_elems out'))
    (cacheArtifacts env target)"
    using Store_copied [OF lay apart arts] by blast
qed

lemma example_modes:
  "PathExists built_fs
     (path_Join [RepoRoot cache_env, OutDir example_core cache_target, ''include/lib.h''])"
  "dirs_free built_fs (key_dir @ butlast [''include'', ''lib.h''])"
  "fst (RetrieveExtra example_core cache_env example_cache cache_target [1, 2, 3]
     ''include/lib.h'' stored_fs)"
  "fst (Retrieve example_core cache_env example_cache cache_target [1, 2, 3] stored_fs)"
  "fileMode cache_target = 292"
  "fs_kind stored_fs (key_dir @ [''include'', ''lib.h'']) = Some (FileK 292 ''h'')"
  "fs_kind built_fs (key_dir @ [''include'', ''lib.h'']) = None"
  "fs_kind stored_fs (out_dir @ [''include'', ''lib.h'']) = None"
  by code_simp+

theorem cache_file_modes_witness:
  "cache_layout example_core cache_env example_cache cache_target [1, 2, 3]
     True key_dir True out_dir
   \<and> \<not> prefix key_dir out_dir \<and> \<not> prefix out_dir key_dir
   \<and> clean_artifact ''include/lib.h''
   \<and> list_all clean_artifact (cacheArtifacts cache_env cache_target)
   \<and> ''include/lib.h'' \<in> set (cacheArtifacts cache_env cache_target)
   \<and> fileMode cache_target = 292
   \<and> fs_kind built_fs (out_dir @ [''include'', ''lib.h'']) = Some (FileK 420 ''h'')
   \<and> fs_kind built_fs (key_dir @ [''include'', ''lib.h'']) = None
   \<and> PathExists built_fs
        (path_Join [RepoRoot cache_env, OutDir example_core cache_target, ''include/lib.h''])
   \<and> dirs_free built_fs (key_dir @ butlast [''include'', ''lib.h''])
   \<and> list_all (\<lambda>out. PathExists built_fs
        (path_Join [RepoRoot cache_env, OutDir example_core cache_target, out]))
      (cacheArtifacts cache_env cache_target)
   \<and> dirs_free built_fs (butlast key_dir)
   \<and> fs_kind (StoreExtra example_core cache_env example_cache cache_target [1, 2, 3]
        ''include/lib.h'' built_fs) (key_dir @ [''include'', ''lib.h''])
      = Some (FileK 292 ''h'')
   \<and> fs_kind (Store example_core cache_env example_cache cache_target [1, 2, 3] built_fs)
        (key_dir @ [''include'', ''lib.h''])
      = Some (FileK 292 ''h'')
   \<and> fs_kind stored_fs (key_dir @ [''include'', ''lib.h'']) = Some (FileK 292 ''h'')
   \<and> fs_kind stored_fs (out_dir @ [''include'', ''lib.h'']) = None
   \<and> fst (RetrieveExtra example_core cache_env example_cache cache_target [1, 2, 3]
        ''include/lib.h'' stored_fs)
   \<and> fst (Retrieve example_core cache_env example_cache cache_target [1, 2, 3] stored_fs)
   \<and> fs_kind (snd (RetrieveExtra example_core cache_env example_cache cache_target [1, 2, 3]
        ''include/lib.h'' stored_fs)) (out_dir @ [''include'', ''lib.h''])
      = Some (FileK 292 ''h'')
   \<and> fs_kind (snd (Retrieve example_core cache_env example_cache cache_target [1, 2, 3]
        stored_fs)) (out_dir @ [''include'', ''lib.h''])
      = Some (FileK 292 ''h'')"
proof -
  note store = cache_file_modes [of cache_target built_fs example_core cache_env example_cache
      "[1, 2, 3]" "''include/lib.h''" True key_dir True out_dir,
      unfolded example_modes(5) example_artifacts(3)]
  note retrieve = cache_file_modes [of cache_target stored_fs example_core cache_env
      example_cache "[1, 2, 3]" "''include/lib.h''" True key_dir True out_dir,
      unfolded example_modes(5) example_artifacts(3)]
  have s1: "copied_with_mode 292 built_fs (out_dir @ [''include'', ''lib.h''])
      (StoreExtra example_core cache_env example_cache cache_target [1, 2, 3]
        ''include/lib.h'' built_fs) (key_dir @ [''include'', ''lib.h''])"
    using store example_layout example_store(6,7) example_artifacts(1) example_modes(1,2)
    by blast
  have "list_all (\<lambda>out'. copied_with_mode 292 built_fs (out_dir @ path_elems out')
      (Store example_core cache_env example_cache cache_target [1, 2, 3] built_fs)
      (key_dir @ path_elems out')) (cacheArtifacts cache_env cache_target)"
    using store example_layout example_store(6,7) example_artifacts(2) example_store(2,3)
    by blast
  then have s2: "copied_with_mode 292 built_fs (out_dir @ [''include'', ''lib.h''])
      (Store example_core cache_env example_cache cache_target [1, 2, 3] built_fs)
      (key_dir @ [''include'', ''lib.h''])"
    using example_store(9) example_artifacts(3) by (auto simp: list_all_iff)
  have r1: "copied_with_mode 292 stored_fs (key_dir @ [''include'', ''lib.h''])
      (snd (RetrieveExtra example_core cache_env example_cache cache_target [1, 2, 3]
        ''include/lib.h'' stored_fs)) (out_dir @ [''include'', ''lib.h''])"
    using retrieve example_layout example_store(6,7) example_artifacts(1) example_modes(3)
    by blast
  have "list_all (\<lambda>out'. copied_with_mode 292 stored_fs (key_dir @ path_elems out')
      (snd (Retrieve example_core cache_env example_cache cache_target [1, 2, 3] stored_fs))
      (out_dir @ path_elems out')) (cacheArtifacts cache_env cache_target)"
    using retrieve example_layout example_store(6,7) example_artifacts(2) example_modes(4)
    by blast
  then have r2: "copied_with_mode 292 stored_fs (key_dir @ [''include'', ''lib.h''])
      (snd (Retrieve example_core cache_env example_cache cache_target [1, 2, 3] stored_fs))
      (out_dir @ [''include'', ''lib.h''])"
    using example_store(9) example_artifacts(3) by (auto simp: list_all_iff)
  note d1 = copied_with_modeD [OF s1 example_store(8)]
    copied_with_modeD [OF s2 example_store(8)]
    copied_with_modeD [OF r1 example_modes(6)]
    copied_with_modeD [OF r2 example_modes(6)]
  show ?thesis
    using example_layout example_store(2,3,6,7,8,9) example_artifacts(1,2) example_modes d1
    by simp
qed

end
